theory Spec2Isabelle
  imports Main "HOL-Library.Sublist" "HOL-Library.Word"
begin

unbundle bit_operations_syntax

section \<open>Gondolin HTTP hooks: host allowlists, internal ranges and secret substitution\<close>

text \<open>
  The development embeds \<^verbatim>\<open>createHttpHooks\<close> and the functions beside it
  (the policy and secrets engine of the host-side HTTP interceptor) and proves the
  properties the specification states about them.

  Conventions of the embedding.
  \<^item> A JavaScript string is a \<^typ>\<open>string\<close>, a list of code units below 256 (the
    characters of Latin-1, which is what a header value on the wire can hold). Case
    folding, white space and line terminators are those JavaScript gives these code
    units; strings with a code unit from 256 on are outside the model.
  \<^item> A thrown \<^verbatim>\<open>HttpRequestBlockedError\<close> is the left summand of a sum type.
  \<^item> Functions of the JavaScript runtime (\<^verbatim>\<open>split\<close>, \<^verbatim>\<open>join\<close>,
    \<^verbatim>\<open>includes\<close>, \<^verbatim>\<open>RegExp\<close>, \<^verbatim>\<open>net.isIP\<close>, base64) are modelled by
    what they compute on the inputs the program gives them; the URL parser, the random
    generator and the two helpers of \<^verbatim>\<open>ip-utils\<close>, whose source is not part of the
    files at hand, are parameters.
\<close>

subsection \<open>Strings of the runtime\<close>

text \<open>The letters that have two cases: \<^verbatim>\<open>A\<close> to \<^verbatim>\<open>Z\<close>, and the code units
  0xC0 to 0xDE without the multiplication sign 0xD7; their lower case is 32 further on.
  The other code units (the sharp s 0xDF, the micro sign 0xB5 and 0xFF among them) have
  no other case below 256.\<close>

definition upperLetters :: string where
  "upperLetters = ''ABCDEFGHIJKLMNOPQRSTUVWXYZ'' @
       [CHR 0xC0, CHR 0xC1, CHR 0xC2, CHR 0xC3, CHR 0xC4, CHR 0xC5, CHR 0xC6, CHR 0xC7,
        CHR 0xC8, CHR 0xC9, CHR 0xCA, CHR 0xCB, CHR 0xCC, CHR 0xCD, CHR 0xCE, CHR 0xCF,
        CHR 0xD0, CHR 0xD1, CHR 0xD2, CHR 0xD3, CHR 0xD4, CHR 0xD5, CHR 0xD6, CHR 0xD8,
        CHR 0xD9, CHR 0xDA, CHR 0xDB, CHR 0xDC, CHR 0xDD, CHR 0xDE]"

definition lowerLetters :: string where
  "lowerLetters = ''abcdefghijklmnopqrstuvwxyz'' @
       [CHR 0xE0, CHR 0xE1, CHR 0xE2, CHR 0xE3, CHR 0xE4, CHR 0xE5, CHR 0xE6, CHR 0xE7,
        CHR 0xE8, CHR 0xE9, CHR 0xEA, CHR 0xEB, CHR 0xEC, CHR 0xED, CHR 0xEE, CHR 0xEF,
        CHR 0xF0, CHR 0xF1, CHR 0xF2, CHR 0xF3, CHR 0xF4, CHR 0xF5, CHR 0xF6, CHR 0xF8,
        CHR 0xF9, CHR 0xFA, CHR 0xFB, CHR 0xFC, CHR 0xFD, CHR 0xFE]"

text \<open>\<^verbatim>\<open>String.prototype.toLowerCase\<close>.\<close>

definition toLowerChar :: "char \<Rightarrow> char" where
  "toLowerChar c = (case map_of (zip upperLetters lowerLetters) c of Some l \<Rightarrow> l | None \<Rightarrow> c)"

definition toLowerCase :: "string \<Rightarrow> string" where
  "toLowerCase s = map toLowerChar s"

text \<open>White space of \<^verbatim>\<open>trim\<close> and of the class \<^verbatim>\<open>\s\<close>: tab, line feed,
  vertical tab, form feed, carriage return, space and the no-break space 0xA0.\<close>

definition isWhiteSpace :: "char \<Rightarrow> bool" where
  "isWhiteSpace c =
     (c \<in> set [CHR 0x09, CHR 0x0A, CHR 0x0B, CHR 0x0C, CHR 0x0D, CHR 0x20, CHR 0xA0])"

text \<open>Line terminators, which the regular expression atom \<^verbatim>\<open>.\<close> does not match.\<close>

definition isLineTerminator :: "char \<Rightarrow> bool" where
  "isLineTerminator c = (c = CHR 0x0A \<or> c = CHR 0x0D)"

definition trim :: "string \<Rightarrow> string" where
  "trim s = rev (dropWhile isWhiteSpace (rev (dropWhile isWhiteSpace s)))"

text \<open>\<^verbatim>\<open>s.includes(t)\<close>: \<open>t\<close> is a contiguous part of \<open>s\<close>.\<close>

definition includesStr :: "string \<Rightarrow> string \<Rightarrow> bool" where
  "includesStr s t = sublist t s"

text \<open>\<^verbatim>\<open>s.split(sep)\<close> for a separator that is not empty: the pieces between the
  leftmost occurrences of the separator, none of them overlapping the one before.\<close>

function splitOn :: "string \<Rightarrow> string \<Rightarrow> string list" where
  "splitOn sep [] = [[]]"
| "splitOn sep (c # cs) =
     (if sep \<noteq> [] \<and> prefix sep (c # cs) then [] # splitOn sep (drop (length sep) (c # cs))
      else (case splitOn sep cs of [] \<Rightarrow> [[c]] | p # ps \<Rightarrow> (c # p) # ps))"
  by pat_completeness auto
termination
  by (relation "measure (\<lambda>(sep, s). length s)") (auto simp: neq_Nil_conv)

text \<open>With the empty separator \<^verbatim>\<open>split\<close> gives the code units one by one.\<close>

definition split :: "string \<Rightarrow> string \<Rightarrow> string list" where
  "split s sep = (if sep = [] then map (\<lambda>c. [c]) s else splitOn sep s)"

text \<open>\<^verbatim>\<open>parts.join(sep)\<close>.\<close>

fun join :: "string \<Rightarrow> string list \<Rightarrow> string" where
  "join sep [] = []"
| "join sep [x] = x"
| "join sep (x # y # ys) = x @ sep @ join sep (y # ys)"

subsection \<open>The regular expressions the program compiles\<close>

text \<open>
  \<^verbatim>\<open>matchHostname\<close> hands a source text to \<^verbatim>\<open>new RegExp(source, "i")\<close>. The model
  reads the part of the syntax such a text can use: the two assertions \<^verbatim>\<open>^\<close> and
  \<^verbatim>\<open>$\<close>, an escaped syntax character, \<^verbatim>\<open>.*\<close>, and a character that stands for
  itself. Any other text is outside the model (\<open>None\<close>).
\<close>

datatype rx = Bol | Eol | Lit char | AnyStar

definition syntaxChars :: string where
  "syntaxChars = [CHR ''.'', CHR ''+'', CHR ''?'', CHR ''^'', CHR ''$'', CHR ''{'', CHR ''}'',
     CHR ''('', CHR '')'', CHR ''|'', CHR ''['', CHR '']'', CHR 0x5C]"

fun rxParse :: "string \<Rightarrow> rx list option" where
  "rxParse [] = Some []"
| "rxParse [c] =
     (if c = CHR ''^'' then Some [Bol]
      else if c = CHR ''$'' then Some [Eol]
      else if c \<in> set syntaxChars \<or> c = CHR ''*'' then None
      else Some [Lit c])"
| "rxParse (c # d # r) =
     (if c = CHR 0x5C then
        (if d \<in> set syntaxChars \<or> d = CHR ''*'' then map_option (Cons (Lit d)) (rxParse r) else None)
      else if c = CHR ''.'' then
        (if d = CHR ''*'' then map_option (Cons AnyStar) (rxParse r) else None)
      else if c = CHR ''^'' then map_option (Cons Bol) (rxParse (d # r))
      else if c = CHR ''$'' then map_option (Cons Eol) (rxParse (d # r))
      else if c \<in> set syntaxChars \<or> c = CHR ''*'' then None
      else map_option (Cons (Lit c)) (rxParse (d # r)))"

text \<open>Two code units are the same under the flag \<^verbatim>\<open>i\<close>: they are equal, or
  the two cases of one letter.\<close>

definition sameIgnoringCase :: "char \<Rightarrow> char \<Rightarrow> bool" where
  "sameIgnoringCase c d = (toLowerChar c = toLowerChar d)"

text \<open>A match of the items from the current position; \<open>atStart\<close> says whether the
  position is the beginning of the input. The match may end anywhere: only \<^verbatim>\<open>$\<close>
  asks for the end of the input.\<close>

fun rxMatchHere :: "rx list \<Rightarrow> bool \<Rightarrow> string \<Rightarrow> bool" where
  "rxMatchHere [] atStart t = True"
| "rxMatchHere (Bol # r) atStart t = (atStart \<and> rxMatchHere r atStart t)"
| "rxMatchHere (Eol # r) atStart t = (t = [] \<and> rxMatchHere r atStart t)"
| "rxMatchHere (Lit c # r) atStart [] = False"
| "rxMatchHere (Lit c # r) atStart (d # t) = (sameIgnoringCase c d \<and> rxMatchHere r False t)"
| "rxMatchHere (AnyStar # r) atStart [] = rxMatchHere r atStart []"
| "rxMatchHere (AnyStar # r) atStart (d # t) =
     (rxMatchHere r atStart (d # t) \<or> (\<not> isLineTerminator d \<and> rxMatchHere (AnyStar # r) False t))"

text \<open>\<^verbatim>\<open>regex.test(s)\<close>: a match that starts at some position of \<open>s\<close>.\<close>

fun rxSearch :: "rx list \<Rightarrow> bool \<Rightarrow> string \<Rightarrow> bool" where
  "rxSearch items atStart [] = rxMatchHere items atStart []"
| "rxSearch items atStart (d # t) = (rxMatchHere items atStart (d # t) \<or> rxSearch items False t)"

definition regExpTest :: "string \<Rightarrow> string \<Rightarrow> bool option" where
  "regExpTest source s = map_option (\<lambda>items. rxSearch items True s) (rxParse source)"

subsection \<open>Host patterns\<close>

text \<open>The replacement \<^verbatim>\<open>part.replace(/[.+?^${}()|[\]\\]/g, "\\$&")\<close>.\<close>

definition escapeRegExp :: "string \<Rightarrow> string" where
  "escapeRegExp part = concat (map (\<lambda>c. if c \<in> set syntaxChars then [CHR 0x5C, c] else [c]) part)"

definition hostnameRegExp :: "string \<Rightarrow> string" where
  "hostnameRegExp pattern =
     ''^'' @ join ''.*'' (map escapeRegExp (split pattern ''*'')) @ ''$''"

definition matchHostname :: "string \<Rightarrow> string \<Rightarrow> bool" where
  "matchHostname hostname pattern =
     (if pattern = [] then False
      else if pattern = ''*'' then True
      else (case regExpTest (hostnameRegExp pattern) hostname of
              Some b \<Rightarrow> b
            | None \<Rightarrow> False))"

definition matchesAnyHost :: "string \<Rightarrow> string list \<Rightarrow> bool" where
  "matchesAnyHost hostname patterns =
     (let normalized = toLowerCase hostname
      in list_ex (\<lambda>pattern. matchHostname normalized pattern) patterns)"

definition normalizeHostnamePattern :: "string \<Rightarrow> string" where
  "normalizeHostnamePattern pattern = toLowerCase (trim pattern)"

text \<open>What the specification says a host pattern means: the pattern is read from its
  first to its last character against the whole host name; \<^verbatim>\<open>*\<close> stands for any run
  of characters of one line, every other character for itself, in either case.\<close>

fun globMatch :: "string \<Rightarrow> string \<Rightarrow> bool" where
  "globMatch [] t = (t = [])"
| "globMatch (p # ps) [] = (p = CHR ''*'' \<and> globMatch ps [])"
| "globMatch (p # ps) (d # t) =
     (if p = CHR ''*'' then globMatch ps (d # t) \<or> (\<not> isLineTerminator d \<and> globMatch (p # ps) t)
      else sameIgnoringCase p d \<and> globMatch ps t)"

text \<open>The items a host pattern compiles to, one for each of its characters.\<close>

definition rxOfGlobChar :: "char \<Rightarrow> rx" where
  "rxOfGlobChar c = (if c = CHR ''*'' then AnyStar else Lit c)"

text \<open>The text a host pattern compiles to, between \<^verbatim>\<open>^\<close> and \<^verbatim>\<open>$\<close>.\<close>

definition compiledGlob :: "string \<Rightarrow> string" where
  "compiledGlob p = join ''.*'' (map escapeRegExp (split p ''*''))"

text \<open>A label of a host name: no dot, and nothing that ends a line.\<close>

definition isLabelSegment :: "string \<Rightarrow> bool" where
  "isLabelSegment s = list_all (\<lambda>c. c \<noteq> CHR ''.'' \<and> \<not> isLineTerminator c) s"

subsection \<open>Requests, secrets and options\<close>

datatype error = HttpRequestBlockedError string

record HttpHookRequest =
  requestMethod :: string
  requestUrl :: string
  requestHeaders :: "(string \<times> string) list"
  requestBody :: "string option"

record SecretDefinition =
  secretHosts :: "string list"
  secretValue :: string

record SecretEntry =
  entryName :: string
  entryPlaceholder :: string
  entryValue :: string
  entryHosts :: "string list"

record IpInfo =
  infoHostname :: string
  infoIp :: string

text \<open>The fields of \<^verbatim>\<open>CreateHttpHooksOptions\<close> the policy reads; an absent field is
  \<open>None\<close>. The object \<^verbatim>\<open>secrets\<close> is the list of its entries, in the order
  \<^verbatim>\<open>Object.entries\<close> gives them.\<close>

record CreateHttpHooksOptions =
  optAllowedHosts :: "string list option"
  optSecrets :: "(string \<times> SecretDefinition) list option"
  optReplaceSecretsInQuery :: "bool option"
  optBlockInternalRanges :: "bool option"
  optIsIpAllowed :: "(IpInfo \<Rightarrow> bool) option"

text \<open>What \<^verbatim>\<open>new URL(text)\<close> gives: the fields the program reads
  (\<^verbatim>\<open>hostname\<close>, \<^verbatim>\<open>search\<close>, the entries of \<^verbatim>\<open>searchParams\<close>), and the
  rest of what the URL serialises to (\<^verbatim>\<open>origin\<close>, \<^verbatim>\<open>pathname\<close>,
  \<^verbatim>\<open>hash\<close>).\<close>

record URL =
  urlHostname :: string
  urlSearch :: string
  urlSearchParams :: "(string \<times> string) list"
  urlOrigin :: string
  urlPathname :: string
  urlHash :: string

text \<open>
  The parts of the runtime and of the repository whose code is not at hand:
  \<^item> \<open>parseURL\<close> is \<^verbatim>\<open>new URL(text)\<close>, \<open>None\<close> when it throws;
  \<^item> \<open>searchParamsToString\<close> is \<^verbatim>\<open>URLSearchParams.prototype.toString\<close>;
  \<^item> \<open>urlWithSearch parsed s\<close> is \<^verbatim>\<open>parsed.toString()\<close> after
    \<^verbatim>\<open>parsed.search = s\<close>;
  \<^item> \<open>utf8ToString\<close> is \<^verbatim>\<open>buffer.toString("utf8")\<close> and \<open>utf8FromString\<close> is
    \<^verbatim>\<open>Buffer.from(text, "utf8")\<close>;
  \<^item> \<open>netIsIPv6\<close> is the IPv6 half of \<^verbatim>\<open>net.isIP\<close>;
  \<^item> \<open>parseIPv6Hextets\<close> and \<open>extractIPv4Mapped\<close> are the two functions imported
    from \<^verbatim>\<open>./ip-utils\<close>.
\<close>

record runtime =
  parseURL :: "string \<Rightarrow> URL option"
  searchParamsToString :: "(string \<times> string) list \<Rightarrow> string"
  urlWithSearch :: "URL \<Rightarrow> string \<Rightarrow> string"
  utf8ToString :: "string \<Rightarrow> string"
  utf8FromString :: "string \<Rightarrow> string"
  netIsIPv6 :: "string \<Rightarrow> bool"
  parseIPv6Hextets :: "string \<Rightarrow> nat list option"
  extractIPv4Mapped :: "nat list \<Rightarrow> string option"

subsection \<open>Base64 of \<^verbatim>\<open>Buffer\<close>\<close>

text \<open>
  A buffer is the list of its bytes. \<^verbatim>\<open>Buffer.from(token, "base64")\<close> reads both
  alphabets, skips a character of neither, stops at the first \<^verbatim>\<open>=\<close>, and drops the
  bits left over after the last whole byte; \<^verbatim>\<open>buffer.toString("base64")\<close> writes the
  standard alphabet and pads with \<^verbatim>\<open>=\<close>.
\<close>

definition base64Alphabet :: string where
  "base64Alphabet = ''ABCDEFGHIJKLMNOPQRSTUVWXYZabcdefghijklmnopqrstuvwxyz0123456789+/''"

definition unbase64 :: "char \<Rightarrow> nat option" where
  "unbase64 c =
     (if c = CHR ''-'' then Some 62
      else if c = CHR ''_'' then Some 63
      else map_of (zip base64Alphabet [0..<64]) c)"

fun base64Sextets :: "string \<Rightarrow> nat list" where
  "base64Sextets [] = []"
| "base64Sextets (c # cs) =
     (if c = CHR ''='' then []
      else (case unbase64 c of None \<Rightarrow> base64Sextets cs | Some v \<Rightarrow> v # base64Sextets cs))"

fun sextetsToBytes :: "nat list \<Rightarrow> nat list" where
  "sextetsToBytes (a # b # c # d # r) =
     (a * 4 + b div 16) # ((b mod 16) * 16 + c div 4) # ((c mod 4) * 64 + d) # sextetsToBytes r"
| "sextetsToBytes [a, b, c] = [a * 4 + b div 16, (b mod 16) * 16 + c div 4]"
| "sextetsToBytes [a, b] = [a * 4 + b div 16]"
| "sextetsToBytes [a] = []"
| "sextetsToBytes [] = []"

definition base64Decode :: "string \<Rightarrow> string" where
  "base64Decode token = map char_of (sextetsToBytes (base64Sextets token))"

definition base64Char :: "nat \<Rightarrow> char" where
  "base64Char v = base64Alphabet ! (v mod 64)"

fun bytesToBase64 :: "nat list \<Rightarrow> string" where
  "bytesToBase64 (x # y # z # r) =
     base64Char (x div 4) # base64Char ((x mod 4) * 16 + y div 16) #
     base64Char ((y mod 16) * 4 + z div 64) # base64Char (z mod 64) # bytesToBase64 r"
| "bytesToBase64 [x, y] =
     [base64Char (x div 4), base64Char ((x mod 4) * 16 + y div 16), base64Char ((y mod 16) * 4),
      CHR ''='']"
| "bytesToBase64 [x] = [base64Char (x div 4), base64Char ((x mod 4) * 16), CHR ''='', CHR ''='']"
| "bytesToBase64 [] = []"

definition base64Encode :: "string \<Rightarrow> string" where
  "base64Encode buffer = bytesToBase64 (map of_char buffer)"

subsection \<open>Internal addresses\<close>

definition isDigit :: "char \<Rightarrow> bool" where
  "isDigit c = (c \<in> set ''0123456789'')"

definition digitValue :: "char \<Rightarrow> nat" where
  "digitValue c = of_char c - 48"

definition decimalValue :: "string \<Rightarrow> nat" where
  "decimalValue s = foldl (\<lambda>acc c. 10 * acc + digitValue c) 0 s"

text \<open>The IPv4 half of \<^verbatim>\<open>net.isIP\<close>: four decimal numbers up to 255, none with a
  leading zero, separated by dots.\<close>

definition isIPv4Segment :: "string \<Rightarrow> bool" where
  "isIPv4Segment part =
     (part \<noteq> [] \<and> length part \<le> 3 \<and> list_all isDigit part \<and>
      (length part = 1 \<or> hd part \<noteq> CHR ''0'') \<and> decimalValue part \<le> 255)"

definition isIPv4 :: "string \<Rightarrow> bool" where
  "isIPv4 ip = (length (split ip ''.'') = 4 \<and> list_all isIPv4Segment (split ip ''.''))"

definition netIsIP :: "runtime \<Rightarrow> string \<Rightarrow> nat" where
  "netIsIP rt ip = (if isIPv4 ip then 4 else if netIsIPv6 rt ip then 6 else 0)"

text \<open>\<^verbatim>\<open>Number(part)\<close> on the parts \<^verbatim>\<open>net.isIP\<close> lets through, runs of decimal
  digits (the empty text is 0). Any other text is read as no integer (\<open>None\<close>).\<close>

definition jsNumber :: "string \<Rightarrow> nat option" where
  "jsNumber part = (if list_all isDigit part then Some (decimalValue part) else None)"

definition isPrivateIPv4 :: "string \<Rightarrow> bool" where
  "isPrivateIPv4 ip =
     (case map jsNumber (split ip ''.'') of
        [Some a, Some b, Some c, Some d] \<Rightarrow>
          (if a = 0 then True
           else if a = 10 then True
           else if a = 127 then True
           else if a = 169 \<and> b = 254 then True
           else if a = 172 \<and> b \<ge> 16 \<and> b \<le> 31 then True
           else if a = 192 \<and> b = 168 then True
           else if a = 100 \<and> b \<ge> 64 \<and> b \<le> 127 then True
           else if a = 255 then True
           else False)
      | _ \<Rightarrow> False)"

text \<open>\<^verbatim>\<open>hextets[0] & mask\<close>; the first element of an empty array is
  \<^verbatim>\<open>undefined\<close>, which \<^verbatim>\<open>&\<close> reads as 0.\<close>

definition firstHextetAnd :: "nat list \<Rightarrow> nat \<Rightarrow> nat" where
  "firstHextetAnd hextets bits = (case hextets of [] \<Rightarrow> 0 | h # _ \<Rightarrow> h AND bits)"

definition isPrivateIPv6 :: "runtime \<Rightarrow> string \<Rightarrow> bool" where
  "isPrivateIPv6 rt ip =
     (case parseIPv6Hextets rt ip of
        None \<Rightarrow> False
      | Some hextets \<Rightarrow>
          (let isAllZero = list_all (\<lambda>v. v = 0) hextets;
               isLoopback = (list_all (\<lambda>v. v = 0) (take 7 hextets) \<and>
                             7 < length hextets \<and> hextets ! 7 = 1)
           in if isAllZero \<or> isLoopback then True
              else if firstHextetAnd hextets 0xfe00 = 0xfc00 then True
              else if firstHextetAnd hextets 0xffc0 = 0xfe80 then True
              else (case extractIPv4Mapped rt hextets of
                      None \<Rightarrow> False
                    | Some mapped \<Rightarrow> mapped \<noteq> [] \<and> isPrivateIPv4 mapped)))"

definition isInternalAddress :: "runtime \<Rightarrow> string \<Rightarrow> bool" where
  "isInternalAddress rt ip =
     (let family = netIsIP rt ip
      in if family = 4 then isPrivateIPv4 ip
         else if family = 6 then isPrivateIPv6 rt ip
         else False)"

text \<open>The address \<^verbatim>\<open>a.b.c.d\<close> as text.\<close>

definition digitChar :: "nat \<Rightarrow> char" where
  "digitChar n = ''0123456789'' ! (n mod 10)"

fun decimalText :: "nat \<Rightarrow> string" where
  "decimalText n = (if n < 10 then [digitChar n] else decimalText (n div 10) @ [digitChar n])"

declare decimalText.simps [simp del]

definition dottedQuad :: "nat \<Rightarrow> nat \<Rightarrow> nat \<Rightarrow> nat \<Rightarrow> string" where
  "dottedQuad a b c d =
     decimalText a @ ''.'' @ decimalText b @ ''.'' @ decimalText c @ ''.'' @ decimalText d"

text \<open>The ranges as the specification lists them: an IPv4 address, read as a number of
  32 bits, lies in \<^verbatim>\<open>base/len\<close> when its first \<open>len\<close> bits are those of \<open>base\<close>; a
  first hextet of 16 bits likewise.\<close>

definition ipv4Number :: "nat \<Rightarrow> nat \<Rightarrow> nat \<Rightarrow> nat \<Rightarrow> nat" where
  "ipv4Number a b c d = ((a * 256 + b) * 256 + c) * 256 + d"

definition inPrefix :: "nat \<Rightarrow> nat \<Rightarrow> nat \<Rightarrow> nat \<Rightarrow> bool" where
  "inPrefix width address base len = (address div 2 ^ (width - len) = base div 2 ^ (width - len))"

definition blockedIPv4Ranges :: "(nat \<times> nat) list" where
  "blockedIPv4Ranges =
     [(ipv4Number 0 0 0 0, 8), (ipv4Number 10 0 0 0, 8), (ipv4Number 127 0 0 0, 8),
      (ipv4Number 169 254 0 0, 16), (ipv4Number 172 16 0 0, 12), (ipv4Number 192 168 0 0, 16),
      (ipv4Number 100 64 0 0, 10), (ipv4Number 255 0 0 0, 8)]"

definition inBlockedIPv4Range :: "nat \<Rightarrow> nat \<Rightarrow> nat \<Rightarrow> nat \<Rightarrow> bool" where
  "inBlockedIPv4Range a b c d =
     list_ex (\<lambda>(base, len). inPrefix 32 (ipv4Number a b c d) base len) blockedIPv4Ranges"

definition inBlockedIPv6Range :: "nat list \<Rightarrow> bool" where
  "inBlockedIPv6Range hextets =
     (hextets = [0, 0, 0, 0, 0, 0, 0, 0] \<or> hextets = [0, 0, 0, 0, 0, 0, 0, 1] \<or>
      inPrefix 16 (hd hextets) 0xfc00 7 \<or> inPrefix 16 (hd hextets) 0xfe80 10)"

subsection \<open>The hooks\<close>

text \<open>What \<^verbatim>\<open>createHttpHooks\<close> returns, with the variables its hooks close over.\<close>

record CreateHttpHooksResult =
  env :: "string \<Rightarrow> string option"
  allowedHosts :: "string list"
  secretEntries :: "SecretEntry list"
  blockInternalRanges :: bool
  options :: CreateHttpHooksOptions

text \<open>The hook \<^verbatim>\<open>isIpAllowed\<close>. Its result comes with the calls it made to the
  caller's own \<^verbatim>\<open>isIpAllowed\<close>, in order.\<close>

definition isIpAllowed :: "runtime \<Rightarrow> CreateHttpHooksResult \<Rightarrow> IpInfo \<Rightarrow> bool \<times> IpInfo list" where
  "isIpAllowed rt hooks info =
     (if blockInternalRanges hooks \<and> isInternalAddress rt (infoIp info) then (False, [])
      else if length (allowedHosts hooks) > 0 \<and>
              \<not> matchesAnyHost (infoHostname info) (allowedHosts hooks) then (False, [])
      else (case optIsIpAllowed (options hooks) of
              Some hook \<Rightarrow> (hook info, [info])
            | None \<Rightarrow> (True, [])))"

subsection \<open>Secrets in a request\<close>

definition getHostname :: "runtime \<Rightarrow> HttpHookRequest \<Rightarrow> string" where
  "getHostname rt request =
     (case parseURL rt (requestUrl request) of
        Some parsed \<Rightarrow> toLowerCase (urlHostname parsed)
      | None \<Rightarrow> [])"

definition blockedMessage :: "SecretEntry \<Rightarrow> string \<Rightarrow> string" where
  "blockedMessage entry hostname =
     ''secret '' @ entryName entry @ '' not allowed for host: '' @
     (if hostname = [] then ''unknown'' else hostname)"

text \<open>The test \<^verbatim>\<open>/^(authorization|proxy-authorization)$/i\<close> of a header name.\<close>

definition isCredentialHeader :: "string \<Rightarrow> bool" where
  "isCredentialHeader headerName =
     (toLowerCase headerName = ''authorization'' \<or> toLowerCase headerName = ''proxy-authorization'')"

text \<open>The match of \<^verbatim>\<open>/^(Basic)(\s+)(\S+)(\s*)$/i\<close>: its four groups, or \<open>None\<close>.
  The groups are forced: all the white space after the scheme, then all that is not
  white space, then a rest of white space only.\<close>

definition matchBasicAuth :: "string \<Rightarrow> (string \<times> string \<times> string \<times> string) option" where
  "matchBasicAuth text =
     (let scheme = take 5 text;
          afterScheme = drop 5 text;
          whitespace = takeWhile isWhiteSpace afterScheme;
          afterWhitespace = dropWhile isWhiteSpace afterScheme;
          token = takeWhile (\<lambda>c. \<not> isWhiteSpace c) afterWhitespace;
          trailing = dropWhile (\<lambda>c. \<not> isWhiteSpace c) afterWhitespace
      in if toLowerCase scheme = ''basic'' \<and> whitespace \<noteq> [] \<and> token \<noteq> [] \<and>
            list_all isWhiteSpace trailing
         then Some (scheme, whitespace, token, trailing)
         else None)"

definition decodeBasicAuth :: "runtime \<Rightarrow> string \<Rightarrow> string option" where
  "decodeBasicAuth rt text =
     (case matchBasicAuth text of
        None \<Rightarrow> None
      | Some (scheme, whitespace, token, trailing) \<Rightarrow> Some (utf8ToString rt (base64Decode token)))"

fun secretValueInHeaders :: "runtime \<Rightarrow> string \<Rightarrow> (string \<times> string) list \<Rightarrow> bool" where
  "secretValueInHeaders rt secret [] = False"
| "secretValueInHeaders rt secret ((headerName, headerValue) # rest) =
     (if headerValue = [] then secretValueInHeaders rt secret rest
      else if includesStr headerValue secret then True
      else if isCredentialHeader headerName then
        (case decodeBasicAuth rt headerValue of
           Some decoded \<Rightarrow>
             (if decoded \<noteq> [] \<and> includesStr decoded secret then True
              else secretValueInHeaders rt secret rest)
         | None \<Rightarrow> secretValueInHeaders rt secret rest)
      else secretValueInHeaders rt secret rest)"

definition requestContainsSecretValueInHeaders ::
  "runtime \<Rightarrow> (string \<times> string) list \<Rightarrow> SecretEntry \<Rightarrow> bool" where
  "requestContainsSecretValueInHeaders rt headers entry =
     (if entryValue entry = [] then False
      else secretValueInHeaders rt (entryValue entry) headers)"

definition requestContainsSecretValueInQuery :: "runtime \<Rightarrow> string \<Rightarrow> SecretEntry \<Rightarrow> bool" where
  "requestContainsSecretValueInQuery rt url entry =
     (if entryValue entry = [] then False
      else (case parseURL rt url of
              None \<Rightarrow> False
            | Some parsed \<Rightarrow>
                (if urlSearch parsed = [] then False
                 else list_ex (\<lambda>(name, val). includesStr name (entryValue entry) \<or>
                                            includesStr val (entryValue entry))
                        (urlSearchParams parsed))))"

fun assertSecretValuesLoop ::
  "runtime \<Rightarrow> HttpHookRequest \<Rightarrow> string \<Rightarrow> bool \<Rightarrow> SecretEntry list \<Rightarrow> error + unit" where
  "assertSecretValuesLoop rt request hostname checkQuery [] = Inr ()"
| "assertSecretValuesLoop rt request hostname checkQuery (entry # rest) =
     (if matchesAnyHost hostname (entryHosts entry)
      then assertSecretValuesLoop rt request hostname checkQuery rest
      else if requestContainsSecretValueInHeaders rt (requestHeaders request) entry
      then Inl (HttpRequestBlockedError (blockedMessage entry hostname))
      else if checkQuery \<and> requestContainsSecretValueInQuery rt (requestUrl request) entry
      then Inl (HttpRequestBlockedError (blockedMessage entry hostname))
      else assertSecretValuesLoop rt request hostname checkQuery rest)"

definition assertSecretValuesAllowedForHost ::
  "runtime \<Rightarrow> HttpHookRequest \<Rightarrow> string \<Rightarrow> SecretEntry list \<Rightarrow> bool \<Rightarrow> error + unit" where
  "assertSecretValuesAllowedForHost rt request hostname entries checkQuery =
     (if length entries = 0 then Inr ()
      else assertSecretValuesLoop rt request hostname checkQuery entries)"

definition replaceAll :: "string \<Rightarrow> string \<Rightarrow> string \<Rightarrow> string" where
  "replaceAll text search replacement =
     (if search = [] then text else join replacement (split text search))"

definition assertSecretAllowedForHost :: "SecretEntry \<Rightarrow> string \<Rightarrow> error + unit" where
  "assertSecretAllowedForHost entry hostname =
     (if matchesAnyHost hostname (entryHosts entry) then Inr ()
      else Inl (HttpRequestBlockedError (blockedMessage entry hostname)))"

text \<open>The loop of \<^verbatim>\<open>replaceSecretPlaceholdersInString\<close>, from the text
  \<open>updated\<close> it has reached.\<close>

fun replaceSecretPlaceholdersLoop :: "string \<Rightarrow> SecretEntry list \<Rightarrow> string \<Rightarrow> error + string" where
  "replaceSecretPlaceholdersLoop hostname [] updated = Inr updated"
| "replaceSecretPlaceholdersLoop hostname (entry # rest) updated =
     (if \<not> includesStr updated (entryPlaceholder entry)
      then replaceSecretPlaceholdersLoop hostname rest updated
      else (case assertSecretAllowedForHost entry hostname of
              Inl e \<Rightarrow> Inl e
            | Inr _ \<Rightarrow>
                replaceSecretPlaceholdersLoop hostname rest
                  (replaceAll updated (entryPlaceholder entry) (entryValue entry))))"

definition replaceSecretPlaceholdersInString ::
  "string \<Rightarrow> string \<Rightarrow> SecretEntry list \<Rightarrow> error + string" where
  "replaceSecretPlaceholdersInString text hostname entries =
     replaceSecretPlaceholdersLoop hostname entries text"

definition replaceBasicAuthSecretPlaceholders ::
  "runtime \<Rightarrow> string \<Rightarrow> string \<Rightarrow> string \<Rightarrow> SecretEntry list \<Rightarrow> error + string" where
  "replaceBasicAuthSecretPlaceholders rt headerName headerValue hostname entries =
     (if \<not> isCredentialHeader headerName then Inr headerValue
      else (case matchBasicAuth headerValue of
              None \<Rightarrow> Inr headerValue
            | Some (scheme, whitespace, token, trailing) \<Rightarrow>
                (let decoded = utf8ToString rt (base64Decode token)
                 in (case replaceSecretPlaceholdersInString decoded hostname entries of
                       Inl e \<Rightarrow> Inl e
                     | Inr updatedDecoded \<Rightarrow>
                         (if updatedDecoded = decoded then Inr headerValue
                          else (let updatedToken = base64Encode (utf8FromString rt updatedDecoded)
                                in Inr (scheme @ whitespace @ updatedToken @ trailing)))))))"

fun replaceHeadersLoop ::
  "runtime \<Rightarrow> string \<Rightarrow> SecretEntry list \<Rightarrow> (string \<times> string) list \<Rightarrow>
   error + (string \<times> string) list" where
  "replaceHeadersLoop rt hostname entries [] = Inr []"
| "replaceHeadersLoop rt hostname entries ((headerName, text) # rest) =
     (case replaceSecretPlaceholdersInString text hostname entries of
        Inl e \<Rightarrow> Inl e
      | Inr updated \<Rightarrow>
          (case replaceBasicAuthSecretPlaceholders rt headerName updated hostname entries of
             Inl e \<Rightarrow> Inl e
           | Inr updated' \<Rightarrow>
               (case replaceHeadersLoop rt hostname entries rest of
                  Inl e \<Rightarrow> Inl e
                | Inr headers \<Rightarrow> Inr ((headerName, updated') # headers))))"

definition replaceSecretPlaceholdersInHeaders ::
  "runtime \<Rightarrow> HttpHookRequest \<Rightarrow> string \<Rightarrow> SecretEntry list \<Rightarrow> error + (string \<times> string) list" where
  "replaceSecretPlaceholdersInHeaders rt request hostname entries =
     (if length entries = 0 then Inr (requestHeaders request)
      else replaceHeadersLoop rt hostname entries (requestHeaders request))"

text \<open>The loop over \<^verbatim>\<open>parsed.searchParams\<close>: the new parameters, and whether one
  of them changed.\<close>

fun replaceParamsLoop ::
  "string \<Rightarrow> SecretEntry list \<Rightarrow> (string \<times> string) list \<Rightarrow>
   error + ((string \<times> string) list \<times> bool)" where
  "replaceParamsLoop hostname entries [] = Inr ([], False)"
| "replaceParamsLoop hostname entries ((name, val) # rest) =
     (case replaceSecretPlaceholdersInString name hostname entries of
        Inl e \<Rightarrow> Inl e
      | Inr updatedName \<Rightarrow>
          (case replaceSecretPlaceholdersInString val hostname entries of
             Inl e \<Rightarrow> Inl e
           | Inr updatedValue \<Rightarrow>
               (case replaceParamsLoop hostname entries rest of
                  Inl e \<Rightarrow> Inl e
                | Inr (params, changed) \<Rightarrow>
                    Inr ((updatedName, updatedValue) # params,
                         (updatedName \<noteq> name \<or> updatedValue \<noteq> val) \<or> changed))))"

definition replaceSecretPlaceholdersInUrlParameters ::
  "runtime \<Rightarrow> string \<Rightarrow> string \<Rightarrow> SecretEntry list \<Rightarrow> bool \<Rightarrow> error + string" where
  "replaceSecretPlaceholdersInUrlParameters rt url hostname entries enabled =
     (if \<not> enabled \<or> length entries = 0 then Inr url
      else (case parseURL rt url of
              None \<Rightarrow> Inr url
            | Some parsed \<Rightarrow>
                (if urlSearch parsed = [] then Inr url
                 else (case replaceParamsLoop hostname entries (urlSearchParams parsed) of
                         Inl e \<Rightarrow> Inl e
                       | Inr (updatedParams, changed) \<Rightarrow>
                           (if \<not> changed then Inr url
                            else (let nextSearch = searchParamsToString rt updatedParams
                                  in Inr (urlWithSearch rt parsed
                                            (if nextSearch \<noteq> [] then ''?'' @ nextSearch else []))))))))"

definition replaceSecretsInQuery :: "CreateHttpHooksResult \<Rightarrow> bool" where
  "replaceSecretsInQuery hooks =
     (case optReplaceSecretsInQuery (options hooks) of Some flag \<Rightarrow> flag | None \<Rightarrow> False)"

definition applySecretsToRequest ::
  "runtime \<Rightarrow> CreateHttpHooksResult \<Rightarrow> HttpHookRequest \<Rightarrow> error + HttpHookRequest" where
  "applySecretsToRequest rt hooks request =
     (let hostname = getHostname rt request
      in (case assertSecretValuesAllowedForHost rt request hostname (secretEntries hooks)
                 (replaceSecretsInQuery hooks) of
            Inl e \<Rightarrow> Inl e
          | Inr _ \<Rightarrow>
              (case replaceSecretPlaceholdersInHeaders rt request hostname (secretEntries hooks) of
                 Inl e \<Rightarrow> Inl e
               | Inr headers \<Rightarrow>
                   (case replaceSecretPlaceholdersInUrlParameters rt (requestUrl request) hostname
                           (secretEntries hooks) (replaceSecretsInQuery hooks) of
                      Inl e \<Rightarrow> Inl e
                    | Inr url \<Rightarrow> Inr (request\<lparr>requestUrl := url, requestHeaders := headers\<rparr>)))))"

subsection \<open>Creating the hooks\<close>

text \<open>The generator behind \<^verbatim>\<open>crypto.randomBytes\<close> is the sequence \<open>rng\<close> of the
  bytes it yields; a call for \<open>n\<close> bytes at position \<open>pos\<close> takes the next \<open>n\<close>.\<close>

definition randomBytes :: "(nat \<Rightarrow> char) \<Rightarrow> nat \<Rightarrow> nat \<Rightarrow> string" where
  "randomBytes rng pos n = map rng [pos ..< pos + n]"

definition hexDigits :: string where
  "hexDigits = ''0123456789abcdef''"

text \<open>\<^verbatim>\<open>buffer.toString("hex")\<close>.\<close>

definition toHex :: "string \<Rightarrow> string" where
  "toHex buffer =
     concat (map (\<lambda>c. [hexDigits ! ((of_char c :: nat) div 16), hexDigits ! ((of_char c :: nat) mod 16)])
       buffer)"

definition placeholderPrefix :: string where
  "placeholderPrefix = ''GONDOLIN_SECRET_''"

text \<open>The assignment \<^verbatim>\<open>env[name] = placeholder\<close> on the object
  \<^verbatim>\<open>env = {}\<close>. For the name \<^verbatim>\<open>__proto__\<close> it runs the setter that
  \<^verbatim>\<open>Object.prototype\<close> has under that name, and this setter ignores a value that
  is a string: the object gets no property.\<close>

definition assignProperty ::
  "(string \<Rightarrow> string option) \<Rightarrow> string \<Rightarrow> string \<Rightarrow> (string \<Rightarrow> string option)" where
  "assignProperty object name val = (if name = ''__proto__'' then object else object(name \<mapsto> val))"

fun secretsLoop ::
  "(nat \<Rightarrow> char) \<Rightarrow> nat \<Rightarrow> (string \<times> SecretDefinition) list \<Rightarrow>
   (string \<Rightarrow> string option) \<Rightarrow> SecretEntry list \<Rightarrow> (string \<Rightarrow> string option) \<times> SecretEntry list" where
  "secretsLoop rng pos [] envSoFar entries = (envSoFar, entries)"
| "secretsLoop rng pos ((name, secret) # rest) envSoFar entries =
     (let placeholder = placeholderPrefix @ toHex (randomBytes rng pos 24)
      in secretsLoop rng (pos + 24) rest (assignProperty envSoFar name placeholder)
           (entries @ [\<lparr>entryName = name, entryPlaceholder = placeholder,
                         entryValue = secretValue secret,
                         entryHosts = map normalizeHostnamePattern (secretHosts secret)\<rparr>]))"

fun uniqueHostsLoop :: "string list \<Rightarrow> string set \<Rightarrow> string list \<Rightarrow> string list" where
  "uniqueHostsLoop [] seen result = result"
| "uniqueHostsLoop (host # rest) seen result =
     (let normalized = normalizeHostnamePattern host
      in if normalized = [] \<or> normalized \<in> seen then uniqueHostsLoop rest seen result
         else uniqueHostsLoop rest (insert normalized seen) (result @ [normalized]))"

definition uniqueHosts :: "string list \<Rightarrow> string list" where
  "uniqueHosts hosts = uniqueHostsLoop hosts {} []"

definition createHttpHooks :: "(nat \<Rightarrow> char) \<Rightarrow> CreateHttpHooksOptions \<Rightarrow> CreateHttpHooksResult" where
  "createHttpHooks rng opts =
     (let (envMap, entries) =
            secretsLoop rng 0 (case optSecrets opts of Some s \<Rightarrow> s | None \<Rightarrow> []) Map.empty []
      in \<lparr>env = envMap,
          allowedHosts =
            uniqueHosts ((case optAllowedHosts opts of Some hs \<Rightarrow> hs | None \<Rightarrow> []) @
                         concat (map entryHosts entries)),
          secretEntries = entries,
          blockInternalRanges = (case optBlockInternalRanges opts of Some b \<Rightarrow> b | None \<Rightarrow> True),
          options = opts\<rparr>)"

text \<open>The built-in denies of admission, as the specification names them: the address is
  in an internal range while these are blocked, or hosts are listed and the host name
  matches none of them.\<close>

definition builtInDenies :: "runtime \<Rightarrow> CreateHttpHooksResult \<Rightarrow> IpInfo \<Rightarrow> bool" where
  "builtInDenies rt hooks info =
     ((blockInternalRanges hooks \<and> isInternalAddress rt (infoIp info)) \<or>
      (allowedHosts hooks \<noteq> [] \<and> \<not> matchesAnyHost (infoHostname info) (allowedHosts hooks)))"

text \<open>The hooks without the caller's own \<^verbatim>\<open>isIpAllowed\<close>.\<close>

definition withoutIpHook :: "CreateHttpHooksResult \<Rightarrow> CreateHttpHooksResult" where
  "withoutIpHook hooks = hooks\<lparr>options := (options hooks)\<lparr>optIsIpAllowed := None\<rparr>\<rparr>"

text \<open>The members of a list in the order of their first occurrence.\<close>

fun firstOccurrences :: "'a list \<Rightarrow> 'a list" where
  "firstOccurrences [] = []"
| "firstOccurrences (x # xs) = x # firstOccurrences (filter (\<lambda>y. y \<noteq> x) xs)"

text \<open>The host patterns of the options: the caller's, then those of the secrets.\<close>

definition optionHostPatterns :: "CreateHttpHooksOptions \<Rightarrow> string list" where
  "optionHostPatterns opts =
     (case optAllowedHosts opts of Some hs \<Rightarrow> hs | None \<Rightarrow> []) @
     concat (map (\<lambda>(name, secret). secretHosts secret)
               (case optSecrets opts of Some s \<Rightarrow> s | None \<Rightarrow> []))"

text \<open>The list the claim on the allowed hosts describes: every pattern trimmed and in
  lower case, each kept where it first occurs.\<close>

definition trimmedLowercasedUnion :: "CreateHttpHooksOptions \<Rightarrow> string list" where
  "trimmedLowercasedUnion opts =
     firstOccurrences (map normalizeHostnamePattern (optionHostPatterns opts))"

text \<open>The form of a placeholder: the prefix, then 48 hexadecimal digits.\<close>

definition isPlaceholder :: "string \<Rightarrow> bool" where
  "isPlaceholder p =
     (length p = 64 \<and> take 16 p = placeholderPrefix \<and> list_all (\<lambda>c. c \<in> set hexDigits) (drop 16 p))"

text \<open>Every placeholder replaced by its value, one entry after the other.\<close>

definition substituteAll :: "SecretEntry list \<Rightarrow> string \<Rightarrow> string" where
  "substituteAll entries text =
     foldl (\<lambda>updated entry. replaceAll updated (entryPlaceholder entry) (entryValue entry))
       text entries"

text \<open>The substitution is permitted when every entry whose placeholder occurs in the
  text, as the entries before it have left it, may go to the host.\<close>

definition substitutionPermitted :: "string \<Rightarrow> SecretEntry list \<Rightarrow> string \<Rightarrow> bool" where
  "substitutionPermitted hostname entries text =
     list_all (\<lambda>i. includesStr (substituteAll (take i entries) text)
                      (entryPlaceholder (entries ! i)) \<longrightarrow>
                    matchesAnyHost hostname (entryHosts (entries ! i)))
       [0 ..< length entries]"

definition substitutedParams :: "SecretEntry list \<Rightarrow> (string \<times> string) list \<Rightarrow> (string \<times> string) list" where
  "substitutedParams entries params =
     map (\<lambda>(name, val). (substituteAll entries name, substituteAll entries val)) params"

definition paramsPermitted :: "string \<Rightarrow> SecretEntry list \<Rightarrow> (string \<times> string) list \<Rightarrow> bool" where
  "paramsPermitted hostname entries params =
     list_all (\<lambda>(name, val). substitutionPermitted hostname entries name \<and>
                             substitutionPermitted hostname entries val) params"

text \<open>What a header value becomes: the placeholders in the value are replaced; then, in
  a \<^verbatim>\<open>Basic\<close> value of a credential header, the placeholders in the decoded
  credentials are replaced and the credentials encoded again.\<close>

definition substitutedHeaderValue :: "runtime \<Rightarrow> SecretEntry list \<Rightarrow> string \<Rightarrow> string \<Rightarrow> string" where
  "substitutedHeaderValue rt entries headerName text =
     (let updated = substituteAll entries text
      in if isCredentialHeader headerName then
           (case matchBasicAuth updated of
              None \<Rightarrow> updated
            | Some (scheme, whitespace, token, trailing) \<Rightarrow>
                (let decoded = utf8ToString rt (base64Decode token);
                     updatedDecoded = substituteAll entries decoded
                 in if updatedDecoded = decoded then updated
                    else scheme @ whitespace @ base64Encode (utf8FromString rt updatedDecoded) @
                         trailing))
         else updated)"

definition headerPermitted ::
  "runtime \<Rightarrow> string \<Rightarrow> SecretEntry list \<Rightarrow> string \<Rightarrow> string \<Rightarrow> bool" where
  "headerPermitted rt hostname entries headerName text =
     (substitutionPermitted hostname entries text \<and>
      (if isCredentialHeader headerName then
         (case matchBasicAuth (substituteAll entries text) of
            None \<Rightarrow> True
          | Some (scheme, whitespace, token, trailing) \<Rightarrow>
              substitutionPermitted hostname entries (utf8ToString rt (base64Decode token)))
       else True))"

definition substitutedHeaders ::
  "runtime \<Rightarrow> SecretEntry list \<Rightarrow> (string \<times> string) list \<Rightarrow> (string \<times> string) list" where
  "substitutedHeaders rt entries headers =
     map (\<lambda>(headerName, text). (headerName, substitutedHeaderValue rt entries headerName text))
       headers"

definition headersPermitted ::
  "runtime \<Rightarrow> string \<Rightarrow> SecretEntry list \<Rightarrow> (string \<times> string) list \<Rightarrow> bool" where
  "headersPermitted rt hostname entries headers =
     list_all (\<lambda>(headerName, text). headerPermitted rt hostname entries headerName text) headers"

text \<open>What a URL becomes when its query is rewritten: a URL that parses and has a query
  is serialised anew, with the placeholders in the names and the values of its
  parameters replaced, if that replaces anything.\<close>

definition rewrittenUrl :: "runtime \<Rightarrow> SecretEntry list \<Rightarrow> string \<Rightarrow> string" where
  "rewrittenUrl rt entries url =
     (case parseURL rt url of
        None \<Rightarrow> url
      | Some parsed \<Rightarrow>
          (if urlSearch parsed = [] \<or>
              substitutedParams entries (urlSearchParams parsed) = urlSearchParams parsed
           then url
           else urlWithSearch rt parsed
                  (if searchParamsToString rt (substitutedParams entries (urlSearchParams parsed)) = []
                   then []
                   else ''?'' @ searchParamsToString rt
                                  (substitutedParams entries (urlSearchParams parsed)))))"

definition queryPermitted :: "runtime \<Rightarrow> string \<Rightarrow> SecretEntry list \<Rightarrow> string \<Rightarrow> bool" where
  "queryPermitted rt hostname entries url =
     (case parseURL rt url of
        None \<Rightarrow> True
      | Some parsed \<Rightarrow>
          urlSearch parsed = [] \<or> paramsPermitted hostname entries (urlSearchParams parsed))"

text \<open>
  The occurrences of a secret's value the allowlist defence looks for: the value is part
  of a header value as it stands, or part of the decoded credentials of a
  \<^verbatim>\<open>Basic\<close> value of an \<^verbatim>\<open>Authorization\<close> or \<^verbatim>\<open>Proxy-Authorization\<close> header;
  or, in a URL with a query, part of the name or of the value of a parameter.
\<close>

definition secretOccursInHeaders :: "runtime \<Rightarrow> (string \<times> string) list \<Rightarrow> string \<Rightarrow> bool" where
  "secretOccursInHeaders rt headers secret =
     list_ex (\<lambda>(headerName, headerValue).
        sublist secret headerValue \<or>
        (isCredentialHeader headerName \<and>
         (case matchBasicAuth headerValue of
            Some (scheme, whitespace, token, trailing) \<Rightarrow>
              sublist secret (utf8ToString rt (base64Decode token))
          | None \<Rightarrow> False))) headers"

definition secretOccursInQuery :: "runtime \<Rightarrow> string \<Rightarrow> string \<Rightarrow> bool" where
  "secretOccursInQuery rt url secret =
     (case parseURL rt url of
        Some parsed \<Rightarrow>
          urlSearch parsed \<noteq> [] \<and>
          list_ex (\<lambda>(name, val). sublist secret name \<or> sublist secret val) (urlSearchParams parsed)
      | None \<Rightarrow> False)"

text \<open>A secret whose value is not empty rides in a request to a host outside its
  allowlist.\<close>

definition secretSmuggled ::
  "runtime \<Rightarrow> HttpHookRequest \<Rightarrow> string \<Rightarrow> bool \<Rightarrow> SecretEntry \<Rightarrow> bool" where
  "secretSmuggled rt request hostname checkQuery entry =
     (\<not> matchesAnyHost hostname (entryHosts entry) \<and> entryValue entry \<noteq> [] \<and>
      (secretOccursInHeaders rt (requestHeaders request) (entryValue entry) \<or>
       (checkQuery \<and> secretOccursInQuery rt (requestUrl request) (entryValue entry))))"

subsection \<open>A runtime for the examples\<close>

text \<open>The examples below run on a runtime that knows the URLs and the addresses they
  use, with what \<^verbatim>\<open>new URL\<close>, \<^verbatim>\<open>net.isIP\<close> and the helpers of
  \<^verbatim>\<open>ip-utils\<close> give for them. A URL is serialised as origin, path, query and
  fragment; the parameters of a query are serialised as \<^verbatim>\<open>URLSearchParams\<close> does.
  The text of the examples is ASCII, on which the UTF-8 conversions change nothing.\<close>

definition examplePlaceholder :: string where
  "examplePlaceholder = ''GONDOLIN_SECRET_030a11181f262d343b424950575e656c737a81888f969da4''"

definition exampleOtherPlaceholder :: string where
  "exampleOtherPlaceholder = ''GONDOLIN_SECRET_abb2b9c0c7ced5dce3eaf1f8ff060d141b222930373e454c''"

definition exampleUrls :: "(string \<times> URL) list" where
  "exampleUrls =
     [(''https://api.example.com/v1'',
       \<lparr>urlHostname = ''api.example.com'', urlSearch = [], urlSearchParams = [],
        urlOrigin = ''https://api.example.com'', urlPathname = ''/v1'', urlHash = []\<rparr>),
      (''https://api.example.com/v1?key='' @ examplePlaceholder,
       \<lparr>urlHostname = ''api.example.com'', urlSearch = ''?key='' @ examplePlaceholder,
        urlSearchParams = [(''key'', examplePlaceholder)],
        urlOrigin = ''https://api.example.com'', urlPathname = ''/v1'', urlHash = []\<rparr>),
      (''https://evil.test/?leak=s3cr3t'',
       \<lparr>urlHostname = ''evil.test'', urlSearch = ''?leak=s3cr3t'',
        urlSearchParams = [(''leak'', ''s3cr3t'')],
        urlOrigin = ''https://evil.test'', urlPathname = ''/'', urlHash = []\<rparr>),
      (''https://evil.test/'',
       \<lparr>urlHostname = ''evil.test'', urlSearch = [], urlSearchParams = [],
        urlOrigin = ''https://evil.test'', urlPathname = ''/'', urlHash = []\<rparr>)]"

definition exampleHextets :: "(string \<times> nat list) list" where
  "exampleHextets =
     [(''::1'', [0, 0, 0, 0, 0, 0, 0, 1]),
      (''fe80::1'', [0xfe80, 0, 0, 0, 0, 0, 0, 1]),
      (''2001:db8::1'', [0x2001, 0xdb8, 0, 0, 0, 0, 0, 1]),
      (''::ffff:10.0.0.1'', [0, 0, 0, 0, 0, 0xffff, 0x0a00, 1])]"

text \<open>The serialiser of \<^verbatim>\<open>URLSearchParams\<close>: letters, digits and \<^verbatim>\<open>*-._\<close>
  stand for themselves, a space becomes \<^verbatim>\<open>+\<close>, and any other code unit the
  percent-encoded bytes of its UTF-8 form.\<close>

definition formUnreserved :: string where
  "formUnreserved =
     ''ABCDEFGHIJKLMNOPQRSTUVWXYZabcdefghijklmnopqrstuvwxyz0123456789*-._''"

definition percentByte :: "nat \<Rightarrow> string" where
  "percentByte n = [CHR ''%'', ''0123456789ABCDEF'' ! (n div 16), ''0123456789ABCDEF'' ! (n mod 16)]"

definition formUrlEncodeChar :: "char \<Rightarrow> string" where
  "formUrlEncodeChar c =
     (if c \<in> set formUnreserved then [c]
      else if c = CHR 0x20 then ''+''
      else if (of_char c :: nat) < 128 then percentByte (of_char c)
      else percentByte (192 + (of_char c :: nat) div 64) @ percentByte (128 + (of_char c :: nat) mod 64))"

definition formUrlEncode :: "string \<Rightarrow> string" where
  "formUrlEncode s = concat (map formUrlEncodeChar s)"

definition exampleRuntime :: runtime where
  "exampleRuntime =
     \<lparr>parseURL = map_of exampleUrls,
      searchParamsToString =
        (\<lambda>params. join ''&'' (map (\<lambda>(name, val). formUrlEncode name @ ''='' @ formUrlEncode val) params)),
      urlWithSearch =
        (\<lambda>parsed search. urlOrigin parsed @ urlPathname parsed @ search @ urlHash parsed),
      utf8ToString = (\<lambda>buffer. buffer),
      utf8FromString = (\<lambda>str. str),
      netIsIPv6 = (\<lambda>ip. ip \<in> set (map fst exampleHextets)),
      parseIPv6Hextets = map_of exampleHextets,
      extractIPv4Mapped =
        (\<lambda>hextets. if length hextets = 8 \<and> take 6 hextets = [0, 0, 0, 0, 0, 0xffff]
                    then Some (dottedQuad (hextets ! 6 div 256) (hextets ! 6 mod 256)
                                          (hextets ! 7 div 256) (hextets ! 7 mod 256))
                    else None)\<rparr>"

definition exampleRng :: "nat \<Rightarrow> char" where
  "exampleRng n = char_of (7 * n + 3)"

definition exampleOptions :: CreateHttpHooksOptions where
  "exampleOptions =
     \<lparr>optAllowedHosts = None,
      optSecrets = Some [(''TOKEN'', \<lparr>secretHosts = ['' API.example.com ''], secretValue = ''s3cr3t''\<rparr>)],
      optReplaceSecretsInQuery = None,
      optBlockInternalRanges = None,
      optIsIpAllowed = None\<rparr>"

definition exampleEntry :: SecretEntry where
  "exampleEntry =
     \<lparr>entryName = ''TOKEN'', entryPlaceholder = examplePlaceholder, entryValue = ''s3cr3t'',
      entryHosts = [''api.example.com'']\<rparr>"

text \<open>Options whose secret has the name \<^verbatim>\<open>__proto__\<close>, as
  \<^verbatim>\<open>JSON.parse\<close> gives them.\<close>

definition exampleProtoOptions :: CreateHttpHooksOptions where
  "exampleProtoOptions =
     \<lparr>optAllowedHosts = None,
      optSecrets = Some [(''__proto__'', \<lparr>secretHosts = [''api.example.com''], secretValue = ''s3cr3t''\<rparr>)],
      optReplaceSecretsInQuery = None,
      optBlockInternalRanges = None,
      optIsIpAllowed = None\<rparr>"

text \<open>Options with two secrets for two hosts, and the query rewritten.\<close>

definition exampleTwoOptions :: CreateHttpHooksOptions where
  "exampleTwoOptions =
     \<lparr>optAllowedHosts = None,
      optSecrets = Some [(''TOKEN'', \<lparr>secretHosts = ['' API.example.com ''], secretValue = ''s3cr3t''\<rparr>),
                         (''OTHER'', \<lparr>secretHosts = [''other.example.org''], secretValue = ''p4ss''\<rparr>)],
      optReplaceSecretsInQuery = Some True,
      optBlockInternalRanges = None,
      optIsIpAllowed = None\<rparr>"

definition exampleOtherEntry :: SecretEntry where
  "exampleOtherEntry =
     \<lparr>entryName = ''OTHER'', entryPlaceholder = exampleOtherPlaceholder, entryValue = ''p4ss'',
      entryHosts = [''other.example.org'']\<rparr>"

definition exampleQueryRequest :: HttpHookRequest where
  "exampleQueryRequest =
     \<lparr>requestMethod = ''GET'', requestUrl = ''https://api.example.com/v1?key='' @ examplePlaceholder,
      requestHeaders = [(''Authorization'', ''Bearer '' @ examplePlaceholder)],
      requestBody = None\<rparr>"

text \<open>Requests of the examples: one that carries the placeholder to the host of the
  secret, one that carries the secret's value to another host inside \<^verbatim>\<open>Basic\<close>
  credentials (\<^verbatim>\<open>user:s3cr3t\<close>), and one that carries nothing.\<close>

definition exampleRequest :: HttpHookRequest where
  "exampleRequest =
     \<lparr>requestMethod = ''GET'', requestUrl = ''https://api.example.com/v1'',
      requestHeaders = [(''Authorization'', ''Bearer '' @ examplePlaceholder)],
      requestBody = None\<rparr>"

definition exampleLeakRequest :: HttpHookRequest where
  "exampleLeakRequest =
     \<lparr>requestMethod = ''GET'', requestUrl = ''https://evil.test/'',
      requestHeaders = [(''Proxy-Authorization'', ''basic dXNlcjpzM2NyM3Q='')],
      requestBody = None\<rparr>"

definition exampleQueryLeakRequest :: HttpHookRequest where
  "exampleQueryLeakRequest =
     \<lparr>requestMethod = ''GET'', requestUrl = ''https://evil.test/?leak=s3cr3t'',
      requestHeaders = [(''Accept'', ''text/plain'')],
      requestBody = None\<rparr>"

definition exampleCleanRequest :: HttpHookRequest where
  "exampleCleanRequest =
     \<lparr>requestMethod = ''GET'', requestUrl = ''https://evil.test/'',
      requestHeaders = [(''Accept'', ''text/plain'')],
      requestBody = None\<rparr>"

section \<open>Properties\<close>

subsection \<open>Auxiliary facts on strings and patterns\<close>

lemma splitOn_not_Nil: "splitOn sep s \<noteq> []"
  by (induction sep s rule: splitOn.induct) (auto split: list.splits)


lemma join_Cons_append: "join sep ((a @ x) # xs) = a @ join sep (x # xs)"
  by (cases xs) auto

lemma compiledGlob_Nil: "compiledGlob [] = []"
  by (simp add: compiledGlob_def split_def escapeRegExp_def)

lemma compiledGlob_star: "compiledGlob (CHR ''*'' # cs) = ''.*'' @ compiledGlob cs"
proof -
  obtain y ys where "splitOn ''*'' cs = y # ys"
    using splitOn_not_Nil[of "''*''" cs] by (cases "splitOn ''*'' cs") auto
  then show ?thesis
    by (simp add: compiledGlob_def split_def escapeRegExp_def)
qed

lemma compiledGlob_char:
  assumes "c \<noteq> CHR ''*''"
  shows "compiledGlob (c # cs) = escapeRegExp [c] @ compiledGlob cs"
proof -
  obtain y ys where s: "splitOn ''*'' cs = y # ys"
    using splitOn_not_Nil[of "''*''" cs] by (cases "splitOn ''*'' cs") auto
  have "escapeRegExp (c # y) = escapeRegExp [c] @ escapeRegExp y"
    by (simp add: escapeRegExp_def)
  with s assms show ?thesis
    by (simp add: compiledGlob_def split_def join_Cons_append del: join.simps)
qed

lemma rxParse_plain:
  assumes "c \<notin> set syntaxChars" "c \<noteq> CHR ''*''" "rest \<noteq> []"
  shows "rxParse (c # rest) = map_option (Cons (Lit c)) (rxParse rest)"
proof -
  obtain d r where "rest = d # r" using assms(3) by (cases rest) auto
  moreover have "c \<noteq> CHR 0x5C" "c \<noteq> CHR ''.''" "c \<noteq> CHR ''^''" "c \<noteq> CHR ''$''"
    using assms(1) by (auto simp: syntaxChars_def)
  ultimately show ?thesis using assms by simp
qed

lemma rxParse_escaped:
  assumes "c \<in> set syntaxChars"
  shows "rxParse (CHR 0x5C # c # rest) = map_option (Cons (Lit c)) (rxParse rest)"
  using assms by simp

lemma rxParse_compiledGlob:
  "rxParse (compiledGlob p @ ''$'') = Some (map rxOfGlobChar p @ [Eol])"
proof (induction p)
  case Nil
  show ?case by (simp add: compiledGlob_Nil syntaxChars_def)
next
  case (Cons c cs)
  show ?case
  proof (cases "c = CHR ''*''")
    case True
    then show ?thesis using Cons by (simp add: compiledGlob_star rxOfGlobChar_def)
  next
    case False
    show ?thesis
    proof (cases "c \<in> set syntaxChars")
      case True
      then have "escapeRegExp [c] = [CHR 0x5C, c]" by (simp add: escapeRegExp_def)
      with False True Cons show ?thesis
        by (simp add: compiledGlob_char rxOfGlobChar_def del: rxParse.simps add: rxParse_escaped)
    next
      case nsyn: False
      then have "escapeRegExp [c] = [c]" by (simp add: escapeRegExp_def)
      with False nsyn Cons show ?thesis
        by (simp add: compiledGlob_char rxOfGlobChar_def rxParse_plain del: rxParse.simps)
    qed
  qed
qed

lemma rxSearch_Bol_later: "rxSearch (Bol # items) False t = False"
  by (induction t) auto

lemma rxSearch_Bol: "rxSearch (Bol # items) True s = rxMatchHere items True s"
  by (cases s) (auto simp: rxSearch_Bol_later)

lemma rxMatchHere_glob:
  "rxMatchHere (map rxOfGlobChar p @ [Eol]) b h = globMatch p h"
proof (induction p h arbitrary: b rule: globMatch.induct)
  case (1 t)
  show ?case by simp
next
  case (2 p ps)
  then show ?case by (auto simp: rxOfGlobChar_def)
next
  case (3 p ps d t)
  then show ?case by (auto simp: rxOfGlobChar_def)
qed

lemma rxParse_hostnameRegExp:
  "rxParse (hostnameRegExp p) = Some (Bol # map rxOfGlobChar p @ [Eol])"
proof -
  have ne: "compiledGlob p @ ''$'' \<noteq> []" by simp
  obtain d r where dr: "compiledGlob p @ ''$'' = d # r"
    using ne by (cases "compiledGlob p @ ''$''") auto
  have "rxParse (CHR ''^'' # d # r) = map_option (Cons Bol) (rxParse (d # r))"
    by simp
  then show ?thesis
    using rxParse_compiledGlob[of p] dr
    by (simp add: hostnameRegExp_def compiledGlob_def del: rxParse.simps)
qed

lemma regExpTest_hostnameRegExp:
  "regExpTest (hostnameRegExp p) h = Some (globMatch p h)"
  by (simp add: regExpTest_def rxParse_hostnameRegExp rxSearch_Bol rxMatchHere_glob)

lemma matchHostname_glob:
  "matchHostname h p = (p \<noteq> [] \<and> (p = ''*'' \<or> globMatch p h))"
  by (simp add: matchHostname_def regExpTest_hostnameRegExp)

lemma globMatch_literal:
  "CHR ''*'' \<notin> set p \<Longrightarrow> globMatch p h = (toLowerCase h = toLowerCase p)"
  by (induction p h rule: globMatch.induct) (auto simp: toLowerCase_def sameIgnoringCase_def)

lemma globMatch_literal_append:
  "CHR ''*'' \<notin> set a \<Longrightarrow> toLowerCase x = toLowerCase a \<Longrightarrow> globMatch (a @ q) (x @ t) = globMatch q t"
  by (induction a x rule: globMatch.induct) (auto simp: toLowerCase_def sameIgnoringCase_def)

lemma globMatch_star_absorb:
  "\<forall>c \<in> set m. \<not> isLineTerminator c \<Longrightarrow> globMatch q t \<Longrightarrow> globMatch (CHR ''*'' # q) (m @ t)"
proof (induction m)
  case Nil
  then show ?case by (cases t) auto
next
  case (Cons a m)
  then show ?case by auto
qed


lemma toLowerChar_other: "c \<notin> set upperLetters \<Longrightarrow> toLowerChar c = c"
proof -
  assume a: "c \<notin> set upperLetters"
  have "map fst (zip upperLetters lowerLetters) = upperLetters"
    by (simp add: upperLetters_def lowerLetters_def)
  then have "c \<notin> fst ` set (zip upperLetters lowerLetters)"
    using a by (metis set_map)
  then have "map_of (zip upperLetters lowerLetters) c = None"
    by (simp add: map_of_eq_None_iff)
  then show ?thesis by (simp add: toLowerChar_def)
qed

lemma toLowerChar_upper: "c \<in> set upperLetters \<Longrightarrow> toLowerChar c \<in> set lowerLetters"
  unfolding upperLetters_def
  by (auto simp: toLowerChar_def upperLetters_def lowerLetters_def)

lemma lowerLetters_not_upper: "c \<in> set lowerLetters \<Longrightarrow> c \<notin> set upperLetters"
  by (auto simp: upperLetters_def lowerLetters_def)

lemma toLowerChar_idem: "toLowerChar (toLowerChar c) = toLowerChar c"
  by (cases "c \<in> set upperLetters")
     (simp_all add: toLowerChar_other toLowerChar_upper lowerLetters_not_upper)

lemma toLowerCase_idem: "toLowerCase (toLowerCase s) = toLowerCase s"
  by (simp add: toLowerCase_def toLowerChar_idem)

lemma star_not_letter: "CHR ''*'' \<notin> set upperLetters" "CHR ''*'' \<notin> set lowerLetters"
  by (simp_all add: upperLetters_def lowerLetters_def)

lemma toLowerChar_star: "(toLowerChar c = CHR ''*'') = (c = CHR ''*'')"
proof (cases "c \<in> set upperLetters")
  case True
  then have "toLowerChar c \<noteq> CHR ''*''" "c \<noteq> CHR ''*''"
    using toLowerChar_upper[OF True] star_not_letter by auto
  then show ?thesis by simp
next
  case False
  then show ?thesis by (simp add: toLowerChar_other)
qed

lemma lineTerminator_not_letter:
  "isLineTerminator c \<Longrightarrow> c \<notin> set upperLetters \<and> c \<notin> set lowerLetters"
  by (auto simp: isLineTerminator_def upperLetters_def lowerLetters_def)

lemma toLowerChar_lineTerminator: "isLineTerminator (toLowerChar c) = isLineTerminator c"
proof (cases "c \<in> set upperLetters")
  case True
  then show ?thesis
    using toLowerChar_upper[OF True] lineTerminator_not_letter by blast
next
  case False
  then show ?thesis by (simp add: toLowerChar_other)
qed

lemma globMatch_lower_text: "globMatch p (toLowerCase h) = globMatch p h"
  by (induction p h rule: globMatch.induct)
     (auto simp: toLowerCase_def sameIgnoringCase_def toLowerChar_idem toLowerChar_lineTerminator)

lemma globMatch_lower_pattern: "globMatch (toLowerCase p) h = globMatch p h"
  by (induction p h rule: globMatch.induct)
     (auto simp: toLowerCase_def sameIgnoringCase_def toLowerChar_idem toLowerChar_star)

lemma globMatch_star_skip: "globMatch q t \<Longrightarrow> globMatch (CHR ''*'' # q) t"
  using globMatch_star_absorb[of "[]" q t] by simp

lemma globMatch_refl: "globMatch b b"
proof (induction b)
  case Nil
  show ?case by simp
next
  case (Cons c b)
  show ?case
  proof (cases "c = CHR ''*''")
    case True
    have "\<not> isLineTerminator (CHR ''*'')" by (simp add: isLineTerminator_def)
    with True globMatch_star_skip[OF Cons] show ?thesis by simp
  next
    case False
    with Cons show ?thesis by (simp add: sameIgnoringCase_def)
  qed
qed

lemma globMatch_segment:
  assumes "CHR ''*'' \<notin> set a" "isLabelSegment seg"
  shows "globMatch (a @ CHR ''*'' # b) (a @ seg @ b) = True"
proof -
  have nl: "\<forall>c \<in> set seg. \<not> isLineTerminator c"
    using assms(2) by (auto simp: isLabelSegment_def list_all_iff)
  have "globMatch b b"
    by (rule globMatch_refl)
  then have "globMatch (CHR ''*'' # b) (seg @ b)"
    using globMatch_star_absorb[OF nl] by blast
  then show ?thesis
    using globMatch_literal_append[OF assms(1), of a "CHR ''*'' # b" "seg @ b"] by simp
qed


subsection \<open>Auxiliary facts on addresses\<close>

lemma and_high_bits:
  assumes "h < 2 ^ (k + l)"
  shows "(h::nat) AND push_bit k (mask l) = push_bit k (drop_bit k h)"
proof (rule bit_eqI)
  fix n
  have tb: "take_bit (k + l) h = h" using assms by (rule take_bit_nat_eq_self)
  have lim: "n < k + l" if "bit h n"
  proof -
    from that tb have "bit (take_bit (k + l) h) n" by simp
    then show ?thesis by (simp add: bit_take_bit_iff)
  qed
  show "bit (h AND push_bit k (mask l)) n = bit (push_bit k (drop_bit k h)) n"
  proof (cases "k \<le> n")
    case True
    then have "n - k < l \<or> \<not> bit h n" using lim by fastforce
    with True show ?thesis
      by (auto simp: bit_and_iff bit_push_bit_iff_nat bit_mask_iff bit_drop_bit_eq)
  next
    case False
    then show ?thesis by (simp add: bit_and_iff bit_push_bit_iff_nat)
  qed
qed

lemma and_fe00:
  assumes "h < 65536"
  shows "(h AND 0xfe00 = (0xfc00::nat)) = inPrefix 16 h 0xfc00 7"
proof -
  have m: "(0xfe00::nat) = push_bit 9 (mask 7)" by (simp add: push_bit_eq_mult mask_eq_exp_minus_1)
  have "h < 2 ^ (9 + 7)" using assms by simp
  then have "h AND 0xfe00 = push_bit 9 (drop_bit 9 h)"
    unfolding m by (rule and_high_bits)
  then show ?thesis
    by (simp add: inPrefix_def push_bit_eq_mult drop_bit_eq_div)
qed

lemma and_ffc0:
  assumes "h < 65536"
  shows "(h AND 0xffc0 = (0xfe80::nat)) = inPrefix 16 h 0xfe80 10"
proof -
  have m: "(0xffc0::nat) = push_bit 6 (mask 10)" by (simp add: push_bit_eq_mult mask_eq_exp_minus_1)
  have "h < 2 ^ (6 + 10)" using assms by simp
  then have "h AND 0xffc0 = push_bit 6 (drop_bit 6 h)"
    unfolding m by (rule and_high_bits)
  then show ?thesis
    by (simp add: inPrefix_def push_bit_eq_mult drop_bit_eq_div)
qed

lemma less_ten_cases:
  "(m::nat) < 10 \<Longrightarrow> m = 0 \<or> m = 1 \<or> m = 2 \<or> m = 3 \<or> m = 4 \<or> m = 5 \<or> m = 6 \<or> m = 7 \<or> m = 8 \<or> m = 9"
  by arith

lemma digitChar_isDigit: "isDigit (digitChar n)"
  using less_ten_cases[of "n mod 10"] by (auto simp: isDigit_def digitChar_def)

lemma digitValue_digitChar: "digitValue (digitChar n) = n mod 10"
  using less_ten_cases[of "n mod 10"] by (auto simp: digitValue_def digitChar_def)

lemma digitChar_not_dot: "digitChar n \<noteq> CHR ''.''"
  using less_ten_cases[of "n mod 10"] by (auto simp: digitChar_def)

lemma decimalText_digits: "list_all isDigit (decimalText n)"
proof (induction n rule: decimalText.induct)
  case (1 n)
  then show ?case
    by (subst decimalText.simps) (auto simp: digitChar_isDigit)
qed

lemma decimalText_not_Nil: "decimalText n \<noteq> []"
  by (subst decimalText.simps) simp

lemma decimalValue_snoc: "decimalValue (s @ [c]) = 10 * decimalValue s + digitValue c"
  by (simp add: decimalValue_def)

lemma decimalValue_decimalText: "decimalValue (decimalText n) = n"
proof (induction n rule: decimalText.induct)
  case (1 n)
  show ?case
  proof (cases "n < 10")
    case True
    then show ?thesis
      by (subst decimalText.simps) (simp add: decimalValue_def digitValue_digitChar)
  next
    case False
    with 1 show ?thesis
      by (subst decimalText.simps) (simp add: decimalValue_snoc digitValue_digitChar)
  qed
qed


lemma decimalText_no_dot: "CHR ''.'' \<notin> set (decimalText n)"
proof (induction n rule: decimalText.induct)
  case (1 n)
  have nd: "CHR ''.'' \<noteq> digitChar n" using digitChar_not_dot[of n] by simp
  show ?case
  proof (cases "n < 10")
    case True
    then show ?thesis using nd by (subst decimalText.simps) simp
  next
    case False
    with 1 have "CHR ''.'' \<notin> set (decimalText (n div 10))" by simp
    with False nd show ?thesis by (subst decimalText.simps) simp
  qed
qed

lemma decimalText_length: "n < 1000 \<Longrightarrow> length (decimalText n) \<le> 3"
  by (subst decimalText.simps, subst decimalText.simps, subst decimalText.simps) auto

lemma digitChar_zero_iff: "(digitChar n = CHR ''0'') = (n mod 10 = 0)"
  using less_ten_cases[of "n mod 10"] by (auto simp: digitChar_def)

lemma decimalText_hd: "10 \<le> n \<Longrightarrow> hd (decimalText n) \<noteq> CHR ''0''"
proof (induction n rule: decimalText.induct)
  case (1 n)
  show ?case
  proof (cases "n div 10 < 10")
    case True
    have "n div 10 \<noteq> 0" using "1.prems" by simp
    then have "(n div 10) mod 10 \<noteq> 0" using True by simp
    then have "digitChar (n div 10) \<noteq> CHR ''0''" by (simp add: digitChar_zero_iff)
    moreover have "decimalText n = [digitChar (n div 10), digitChar n]"
      using "1.prems" True by (subst decimalText.simps, subst decimalText.simps) simp
    ultimately show ?thesis by simp
  next
    case False
    then have "hd (decimalText (n div 10)) \<noteq> CHR ''0''" using 1 by simp
    moreover have "decimalText n = decimalText (n div 10) @ [digitChar n]"
      using "1.prems" by (subst decimalText.simps) simp
    ultimately show ?thesis by (simp add: decimalText_not_Nil)
  qed
qed

lemma decimalText_one: "n < 10 \<Longrightarrow> length (decimalText n) = 1"
  by (subst decimalText.simps) simp

lemma isIPv4Segment_decimalText:
  assumes "n < 256"
  shows "isIPv4Segment (decimalText n)"
proof -
  have "length (decimalText n) \<le> 3" using assms decimalText_length[of n] by simp
  moreover have "length (decimalText n) = 1 \<or> hd (decimalText n) \<noteq> CHR ''0''"
    using decimalText_hd[of n] decimalText_one[of n] by (cases "n < 10") auto
  ultimately show ?thesis
    using assms
    by (simp add: isIPv4Segment_def decimalText_not_Nil decimalText_digits decimalValue_decimalText)
qed

lemma jsNumber_decimalText: "jsNumber (decimalText n) = Some n"
  by (simp add: jsNumber_def decimalText_digits decimalValue_decimalText)

lemma splitOn_dot_last: "CHR ''.'' \<notin> set x \<Longrightarrow> splitOn ''.'' x = [x]"
  by (induction x) auto

lemma splitOn_dot_append:
  "CHR ''.'' \<notin> set x \<Longrightarrow> splitOn ''.'' (x @ CHR ''.'' # r) = x # splitOn ''.'' r"
  by (induction x) auto

lemma split_dottedQuad:
  "split (dottedQuad a b c d) ''.'' = [decimalText a, decimalText b, decimalText c, decimalText d]"
  by (simp add: split_def dottedQuad_def splitOn_dot_append splitOn_dot_last decimalText_no_dot)

lemma isIPv4_dottedQuad:
  "a < 256 \<Longrightarrow> b < 256 \<Longrightarrow> c < 256 \<Longrightarrow> d < 256 \<Longrightarrow> isIPv4 (dottedQuad a b c d)"
  by (simp add: isIPv4_def split_dottedQuad isIPv4Segment_decimalText)

lemma ipv4_div24: "b < 256 \<Longrightarrow> c < 256 \<Longrightarrow> d < 256 \<Longrightarrow> ipv4Number a b c d div 16777216 = a"
  by (simp add: ipv4Number_def)

lemma ipv4_div16: "c < 256 \<Longrightarrow> d < 256 \<Longrightarrow> ipv4Number a b c d div 65536 = a * 256 + b"
  by (simp add: ipv4Number_def)

lemma ipv4_div20: "b < 256 \<Longrightarrow> c < 256 \<Longrightarrow> d < 256 \<Longrightarrow> ipv4Number a b c d div 1048576 = a * 16 + b div 16"
  by (simp add: ipv4Number_def)

lemma ipv4_div22: "b < 256 \<Longrightarrow> c < 256 \<Longrightarrow> d < 256 \<Longrightarrow> ipv4Number a b c d div 4194304 = a * 4 + b div 64"
  by (simp add: ipv4Number_def)

lemma two_digits_eq:
  fixes a b k r n :: nat
  assumes "b < n" "r < n"
  shows "(a * n + b = k * n + r) = (a = k \<and> b = r)"
proof
  assume eq: "a * n + b = k * n + r"
  then have "(a * n + b) div n = (k * n + r) div n" by simp
  then have a: "a = k" using assms by simp
  with eq show "a = k \<and> b = r" by simp
next
  assume "a = k \<and> b = r"
  then show "a * n + b = k * n + r" by simp
qed

lemma octets_169_254: "(b::nat) < 256 \<Longrightarrow> (a * 256 + b = 43518) = (a = 169 \<and> b = 254)"
  using two_digits_eq[of b 256 254 a 169] by simp

lemma octets_192_168: "(b::nat) < 256 \<Longrightarrow> (a * 256 + b = 49320) = (a = 192 \<and> b = 168)"
  using two_digits_eq[of b 256 168 a 192] by simp

lemma div16_one: "((b::nat) div 16 = 1) = (16 \<le> b \<and> b \<le> 31)"
  by arith

lemma div64_one: "((b::nat) div 64 = 1) = (64 \<le> b \<and> b \<le> 127)"
  by arith

lemma octets_172_16: "(b::nat) < 256 \<Longrightarrow> (a * 16 + b div 16 = 2753) = (a = 172 \<and> 16 \<le> b \<and> b \<le> 31)"
proof -
  assume "b < 256"
  then have "b div 16 < 16" by simp
  then have "(a * 16 + b div 16 = 2753) = (a = 172 \<and> b div 16 = 1)"
    using two_digits_eq[of "b div 16" 16 1 a 172] by simp
  then show ?thesis by (simp only: div16_one)
qed

lemma octets_100_64: "(b::nat) < 256 \<Longrightarrow> (a * 4 + b div 64 = 401) = (a = 100 \<and> 64 \<le> b \<and> b \<le> 127)"
proof -
  assume "b < 256"
  then have "b div 64 < 4" by simp
  then have "(a * 4 + b div 64 = 401) = (a = 100 \<and> b div 64 = 1)"
    using two_digits_eq[of "b div 64" 4 1 a 100] by simp
  then show ?thesis by (simp only: div64_one)
qed

lemma inBlockedIPv4Range_octets:
  assumes "b < 256" "c < 256" "d < 256"
  shows "inBlockedIPv4Range a b c d =
     (a = 0 \<or> a = 10 \<or> a = 127 \<or> (a = 169 \<and> b = 254) \<or> (a = 172 \<and> 16 \<le> b \<and> b \<le> 31) \<or>
      (a = 192 \<and> b = 168) \<or> (a = 100 \<and> 64 \<le> b \<and> b \<le> 127) \<or> a = 255)"
proof -
  have "inBlockedIPv4Range a b c d =
     (a = 0 \<or> a = 10 \<or> a = 127 \<or> a * 256 + b = 43518 \<or> a * 16 + b div 16 = 2753 \<or>
      a * 256 + b = 49320 \<or> a * 4 + b div 64 = 401 \<or> a = 255)"
    using assms
    by (simp add: inBlockedIPv4Range_def blockedIPv4Ranges_def inPrefix_def
          ipv4_div24 ipv4_div16 ipv4_div20 ipv4_div22)
  then show ?thesis
    by (simp only: octets_169_254[OF assms(1)] octets_192_168[OF assms(1)]
          octets_172_16[OF assms(1)] octets_100_64[OF assms(1)])
qed

lemma isPrivateIPv4_octets:
  "isPrivateIPv4 (dottedQuad a b c d) =
     (a = 0 \<or> a = 10 \<or> a = 127 \<or> (a = 169 \<and> b = 254) \<or> (a = 172 \<and> 16 \<le> b \<and> b \<le> 31) \<or>
      (a = 192 \<and> b = 168) \<or> (a = 100 \<and> 64 \<le> b \<and> b \<le> 127) \<or> a = 255)"
  unfolding isPrivateIPv4_def split_dottedQuad
  by (simp add: jsNumber_decimalText)

lemma isPrivateIPv4_dottedQuad:
  assumes "b < 256" "c < 256" "d < 256"
  shows "isPrivateIPv4 (dottedQuad a b c d) = inBlockedIPv4Range a b c d"
  by (simp only: inBlockedIPv4Range_octets[OF assms] isPrivateIPv4_octets)

lemma list_of_length_8:
  assumes "length xs = 8"
  obtains h0 h1 h2 h3 h4 h5 h6 h7 where "xs = [h0, h1, h2, h3, h4, h5, h6, h7]"
proof -
  from assms have "\<exists>h0 h1 h2 h3 h4 h5 h6 h7. xs = [h0, h1, h2, h3, h4, h5, h6, h7]"
    by (simp add: eval_nat_numeral length_Suc_conv) blast
  then show ?thesis using that by blast
qed

lemma isPrivateIPv6_hextets:
  assumes p: "parseIPv6Hextets rt ip = Some hextets"
    and len: "length hextets = 8"
    and bound: "\<forall>h \<in> set hextets. h < 65536"
  shows "isPrivateIPv6 rt ip =
     (inBlockedIPv6Range hextets \<or>
      (\<exists>mapped. extractIPv4Mapped rt hextets = Some mapped \<and> mapped \<noteq> [] \<and> isPrivateIPv4 mapped))"
proof -
  obtain h0 h1 h2 h3 h4 h5 h6 h7 where hs: "hextets = [h0, h1, h2, h3, h4, h5, h6, h7]"
    using len by (rule list_of_length_8)
  have h0: "h0 < 65536" using bound hs by simp
  have zero: "list_all (\<lambda>v. v = 0) hextets = (hextets = [0, 0, 0, 0, 0, 0, 0, 0])"
    unfolding hs by auto
  have loop: "(list_all (\<lambda>v. v = 0) (take 7 hextets) \<and> 7 < length hextets \<and> hextets ! 7 = 1)
      = (hextets = [0, 0, 0, 0, 0, 0, 0, 1])"
    unfolding hs by auto
  have a1: "(firstHextetAnd hextets 0xfe00 = 0xfc00) = inPrefix 16 (hd hextets) 0xfc00 7"
    unfolding hs using and_fe00[OF h0] by (simp add: firstHextetAnd_def)
  have a2: "(firstHextetAnd hextets 0xffc0 = 0xfe80) = inPrefix 16 (hd hextets) 0xfe80 10"
    unfolding hs using and_ffc0[OF h0] by (simp add: firstHextetAnd_def)
  show ?thesis
    unfolding isPrivateIPv6_def p inBlockedIPv6Range_def
    by (simp only: option.case Let_def zero loop a1 a2) (auto split: option.splits)
qed

subsection \<open>Auxiliary facts on the creation of the hooks\<close>

lemma isWhiteSpace_not_letter: "isWhiteSpace c \<Longrightarrow> c \<notin> set upperLetters \<and> c \<notin> set lowerLetters"
  by (auto simp: isWhiteSpace_def upperLetters_def lowerLetters_def)

lemma isWhiteSpace_toLowerChar: "isWhiteSpace (toLowerChar c) = isWhiteSpace c"
proof (cases "c \<in> set upperLetters")
  case True
  then show ?thesis
    using toLowerChar_upper[OF True] isWhiteSpace_not_letter by blast
next
  case False
  then show ?thesis by (simp add: toLowerChar_other)
qed

lemma dropWhile_ws_lower:
  "dropWhile isWhiteSpace (toLowerCase s) = toLowerCase (dropWhile isWhiteSpace s)"
  by (induction s) (auto simp: toLowerCase_def isWhiteSpace_toLowerChar)

lemma trim_toLowerCase: "trim (toLowerCase s) = toLowerCase (trim s)"
proof -
  have r: "rev (toLowerCase t) = toLowerCase (rev t)" for t
    by (simp add: toLowerCase_def rev_map)
  show ?thesis
    by (simp add: trim_def dropWhile_ws_lower r)
qed

lemma dropWhile_rev_prefix:
  "xs = rev (dropWhile P (rev xs)) @ rev (takeWhile P (rev xs))"
proof -
  have "rev (takeWhile P (rev xs) @ dropWhile P (rev xs)) = rev (rev xs)"
    by (simp only: takeWhile_dropWhile_id)
  then show ?thesis by (simp only: rev_append rev_rev_ident)
qed

lemma trim_idem: "trim (trim s) = trim s"
proof -
  define t where "t = dropWhile isWhiteSpace s"
  define u where "u = rev (dropWhile isWhiteSpace (rev t))"
  have tu: "trim s = u" by (simp add: trim_def t_def u_def)
  have tdec: "t = u @ rev (takeWhile isWhiteSpace (rev t))"
    unfolding u_def by (rule dropWhile_rev_prefix)
  have du: "dropWhile isWhiteSpace u = u"
  proof (cases u)
    case Nil
    then show ?thesis by simp
  next
    case (Cons a u')
    then have "t \<noteq> []" "hd t = a" using tdec by (metis append_is_Nil_conv list.distinct(1), metis hd_append2 list.sel(1) list.distinct(1))
    then have "\<not> isWhiteSpace a" unfolding t_def using hd_dropWhile by metis
    with Cons show ?thesis by simp
  qed
  have dr: "dropWhile isWhiteSpace (rev u) = rev u"
    unfolding u_def by (simp add: dropWhile_idem)
  show ?thesis unfolding tu by (simp add: trim_def du dr)
qed

lemma normalizeHostnamePattern_idem:
  "normalizeHostnamePattern (normalizeHostnamePattern p) = normalizeHostnamePattern p"
  by (simp add: normalizeHostnamePattern_def trim_toLowerCase trim_idem toLowerCase_idem)

lemma filter_notin_snoc:
  "filter (\<lambda>y. y \<noteq> n) (filter (\<lambda>h. h \<notin> set result) xs) = filter (\<lambda>h. h \<notin> set (result @ [n])) xs"
  by (induction xs) auto

lemma uniqueHostsLoop_firstOccurrences:
  "uniqueHostsLoop hosts (set result) result =
     result @ firstOccurrences (filter (\<lambda>h. h \<notin> set result)
                 (filter (\<lambda>h. h \<noteq> []) (map normalizeHostnamePattern hosts)))"
proof (induction hosts arbitrary: result)
  case Nil
  show ?case by simp
next
  case (Cons host rest)
  let ?n = "normalizeHostnamePattern host"
  show ?case
  proof (cases "?n = [] \<or> ?n \<in> set result")
    case True
    then show ?thesis using Cons[of result] by (auto simp: Let_def)
  next
    case False
    have "uniqueHostsLoop (host # rest) (set result) result =
          uniqueHostsLoop rest (set (result @ [?n])) (result @ [?n])"
      using False by (simp add: Let_def)
    also have "\<dots> = (result @ [?n]) @ firstOccurrences (filter (\<lambda>h. h \<notin> set (result @ [?n]))
                 (filter (\<lambda>h. h \<noteq> []) (map normalizeHostnamePattern rest)))"
      by (rule Cons)
    finally have step: "uniqueHostsLoop (host # rest) (set result) result =
        (result @ [?n]) @ firstOccurrences (filter (\<lambda>h. h \<notin> set (result @ [?n]))
                 (filter (\<lambda>h. h \<noteq> []) (map normalizeHostnamePattern rest)))" .
    have eq: "filter (\<lambda>x. x \<noteq> [] \<and> x \<noteq> ?n \<and> x \<notin> set result) ys =
              filter (\<lambda>x. x \<noteq> [] \<and> x \<notin> set result \<and> x \<noteq> ?n) ys" for ys
      by (rule filter_cong) auto
    show ?thesis unfolding step using False by (simp add: eq)
  qed
qed

lemma uniqueHosts_firstOccurrences:
  "uniqueHosts hosts =
     firstOccurrences (filter (\<lambda>h. h \<noteq> []) (map normalizeHostnamePattern hosts))"
  using uniqueHostsLoop_firstOccurrences[of hosts "[]"] by (simp add: uniqueHosts_def)

lemma set_firstOccurrences: "set (firstOccurrences xs) = set xs"
proof (induction xs rule: firstOccurrences.induct)
  case 1
  show ?case by simp
next
  case (2 x xs)
  then show ?case by auto
qed

lemma distinct_firstOccurrences: "distinct (firstOccurrences xs)"
proof (induction xs rule: firstOccurrences.induct)
  case 1
  show ?case by simp
next
  case (2 x xs)
  then show ?case by (simp add: set_firstOccurrences)
qed

lemma secretsLoop_entries:
  "snd (secretsLoop rng pos secrets envSoFar entries) =
     entries @ map (\<lambda>(i, name, secret).
        \<lparr>entryName = name,
         entryPlaceholder = placeholderPrefix @ toHex (randomBytes rng (pos + 24 * i) 24),
         entryValue = secretValue secret,
         entryHosts = map normalizeHostnamePattern (secretHosts secret)\<rparr>)
       (zip [0 ..< length secrets] secrets)"
proof (induction secrets arbitrary: pos envSoFar entries)
  case Nil
  show ?case by simp
next
  case (Cons s rest)
  obtain name secret where s: "s = (name, secret)" by (cases s)
  have z: "zip [0 ..< length (s # rest)] (s # rest) =
           (0, s) # map (\<lambda>(i, x). (Suc i, x)) (zip [0 ..< length rest] rest)"
    by (simp add: upt_conv_Cons del: upt_Suc) (simp add: map_Suc_upt[symmetric] zip_map1 del: upt_Suc)
  show ?case
    unfolding z
    by (simp add: s Let_def Cons case_prod_beta comp_def add.assoc)
qed

lemma map_zip_ignore: "length ns = length xs \<Longrightarrow> map (\<lambda>(i, x). f x) (zip ns xs) = map f xs"
  by (induction ns xs rule: list_induct2) auto

lemma map_zip_index_ignore: "map (\<lambda>(i, x). f x) (zip [0 ..< length xs] xs) = map f xs"
  by (rule map_zip_ignore) simp

lemma createHttpHooks_secretsLoop:
  "secretEntries (createHttpHooks rng opts) =
     snd (secretsLoop rng 0 (case optSecrets opts of Some s \<Rightarrow> s | None \<Rightarrow> []) Map.empty [])"
  "env (createHttpHooks rng opts) =
     fst (secretsLoop rng 0 (case optSecrets opts of Some s \<Rightarrow> s | None \<Rightarrow> []) Map.empty [])"
  by (simp_all add: createHttpHooks_def Let_def case_prod_beta)

lemma createHttpHooks_entries:
  "secretEntries (createHttpHooks rng opts) =
     map (\<lambda>(i, name, secret).
        \<lparr>entryName = name,
         entryPlaceholder = placeholderPrefix @ toHex (randomBytes rng (24 * i) 24),
         entryValue = secretValue secret,
         entryHosts = map normalizeHostnamePattern (secretHosts secret)\<rparr>)
       (zip [0 ..< length (case optSecrets opts of Some s \<Rightarrow> s | None \<Rightarrow> [])]
            (case optSecrets opts of Some s \<Rightarrow> s | None \<Rightarrow> []))"
  unfolding createHttpHooks_secretsLoop secretsLoop_entries by simp

lemma concat_entryHosts:
  "concat (map entryHosts (secretEntries (createHttpHooks rng opts))) =
     map normalizeHostnamePattern
       (concat (map (\<lambda>(name, secret). secretHosts secret)
                  (case optSecrets opts of Some s \<Rightarrow> s | None \<Rightarrow> [])))"
proof -
  let ?secrets = "case optSecrets opts of Some s \<Rightarrow> s | None \<Rightarrow> []"
  have "map entryHosts (secretEntries (createHttpHooks rng opts)) =
        map (\<lambda>(i, x). map normalizeHostnamePattern (secretHosts (snd x)))
          (zip [0 ..< length ?secrets] ?secrets)"
    by (simp add: createHttpHooks_entries case_prod_beta comp_def)
  also have "\<dots> = map (\<lambda>x. map normalizeHostnamePattern (secretHosts (snd x))) ?secrets"
    by (rule map_zip_index_ignore)
  finally show ?thesis
    by (simp add: map_concat case_prod_beta comp_def)
qed

lemma createHttpHooks_allowedHosts:
  "allowedHosts (createHttpHooks rng opts) =
     firstOccurrences (filter (\<lambda>h. h \<noteq> [])
       (map normalizeHostnamePattern (optionHostPatterns opts)))"
proof -
  have "allowedHosts (createHttpHooks rng opts) =
        uniqueHosts ((case optAllowedHosts opts of Some hs \<Rightarrow> hs | None \<Rightarrow> []) @
                     concat (map entryHosts (secretEntries (createHttpHooks rng opts))))"
    by (simp add: createHttpHooks_def Let_def split: prod.splits)
  then show ?thesis
    by (simp add: concat_entryHosts uniqueHosts_firstOccurrences optionHostPatterns_def
          normalizeHostnamePattern_idem comp_def)
qed

lemma matchHostname_not_empty: "matchHostname h p \<Longrightarrow> p \<noteq> []"
  by (simp add: matchHostname_def split: if_splits)

lemma secret_host_allowed:
  assumes e: "entry \<in> set (secretEntries (createHttpHooks rng opts))"
    and m: "matchesAnyHost hostname (entryHosts entry)"
  shows "matchesAnyHost hostname (allowedHosts (createHttpHooks rng opts))"
proof -
  let ?secrets = "case optSecrets opts of Some s \<Rightarrow> s | None \<Rightarrow> []"
  from m obtain p where p: "p \<in> set (entryHosts entry)" "matchHostname (toLowerCase hostname) p"
    by (auto simp: matchesAnyHost_def list_ex_iff)
  have ne: "p \<noteq> []" using p(2) by (rule matchHostname_not_empty)
  have "p \<in> set (concat (map entryHosts (secretEntries (createHttpHooks rng opts))))"
    using e p(1) by auto
  then obtain q where q: "p = normalizeHostnamePattern q"
      "q \<in> set (concat (map (\<lambda>(name, secret). secretHosts secret) ?secrets))"
    unfolding concat_entryHosts by auto
  have "q \<in> set (optionHostPatterns opts)" using q(2) by (simp add: optionHostPatterns_def)
  then have "p \<in> set (allowedHosts (createHttpHooks rng opts))"
    using ne q(1) by (auto simp: createHttpHooks_allowedHosts set_firstOccurrences)
  with p(2) show ?thesis by (auto simp: matchesAnyHost_def list_ex_iff)
qed

subsection \<open>Host patterns are anchored globs\<close>

text \<open>
  Claim C4. For a pattern that is not empty, \<^verbatim>\<open>matchHostname\<close> reads the pattern
  against the whole host name, from its first to its last character: \<^verbatim>\<open>*\<close> stands
  for any run of characters, every other character (the syntax characters of regular
  expressions among them) for itself, and letters match in either case, in the host name
  and in the pattern. So a \<^verbatim>\<open>*\<close> matches any label of a host name. With an empty
  list of allowed hosts \<^verbatim>\<open>isIpAllowed\<close> never denies for the host name: only the
  internal ranges and the caller's hook can.
\<close>

theorem matchHostname_anchored_glob:
  "pattern \<noteq> [] \<Longrightarrow>
     (matchHostname hostname pattern \<longleftrightarrow> pattern = ''*'' \<or> globMatch pattern hostname) \<and>
     (CHR ''*'' \<notin> set pattern \<longrightarrow>
        (matchHostname hostname pattern \<longleftrightarrow> toLowerCase hostname = toLowerCase pattern)) \<and>
     (matchHostname (toLowerCase hostname) pattern \<longleftrightarrow> matchHostname hostname pattern) \<and>
     (matchHostname hostname (toLowerCase pattern) \<longleftrightarrow> matchHostname hostname pattern) \<and>
     (\<forall>before seg after. pattern = before @ ''*'' @ after \<and> CHR ''*'' \<notin> set before \<and>
        isLabelSegment seg \<longrightarrow> matchHostname (before @ seg @ after) pattern) \<and>
     (allowedHosts hooks = [] \<longrightarrow>
        isIpAllowed rt hooks info =
          (if blockInternalRanges hooks \<and> isInternalAddress rt (infoIp info) then (False, [])
           else (case optIsIpAllowed (options hooks) of
                   Some hook \<Rightarrow> (hook info, [info])
                 | None \<Rightarrow> (True, []))))"
proof -
  assume ne: "pattern \<noteq> []"
  have lowne: "toLowerCase pattern \<noteq> []" using ne by (simp add: toLowerCase_def)
  have lowstar: "(toLowerCase pattern = ''*'') = (pattern = ''*'')"
    by (cases pattern) (auto simp: toLowerCase_def toLowerChar_star)
  have 1: "matchHostname hostname pattern \<longleftrightarrow> pattern = ''*'' \<or> globMatch pattern hostname"
    using ne by (simp add: matchHostname_glob)
  have 2: "CHR ''*'' \<notin> set pattern \<longrightarrow>
        (matchHostname hostname pattern \<longleftrightarrow> toLowerCase hostname = toLowerCase pattern)"
    using ne by (auto simp: matchHostname_glob globMatch_literal)
  have 3: "matchHostname (toLowerCase hostname) pattern \<longleftrightarrow> matchHostname hostname pattern"
    by (simp add: matchHostname_glob globMatch_lower_text)
  have 4: "matchHostname hostname (toLowerCase pattern) \<longleftrightarrow> matchHostname hostname pattern"
    using lowne ne lowstar by (simp add: matchHostname_glob globMatch_lower_pattern)
  have 5: "\<forall>before seg after. pattern = before @ ''*'' @ after \<and> CHR ''*'' \<notin> set before \<and>
        isLabelSegment seg \<longrightarrow> matchHostname (before @ seg @ after) pattern"
    using globMatch_segment by (auto simp: matchHostname_glob)
  have 6: "allowedHosts hooks = [] \<longrightarrow>
        isIpAllowed rt hooks info =
          (if blockInternalRanges hooks \<and> isInternalAddress rt (infoIp info) then (False, [])
           else (case optIsIpAllowed (options hooks) of
                   Some hook \<Rightarrow> (hook info, [info])
                 | None \<Rightarrow> (True, [])))"
    by (simp add: isIpAllowed_def)
  from 1 2 3 4 5 6 show ?thesis by (intro conjI)
qed


theorem matchHostname_anchored_glob_witness:
  "''*.example.com'' \<noteq> [] \<and>
   matchHostname ''API.b.Example.com'' ''*.example.com'' \<and>
   \<not> matchHostname ''example.com.evil.test'' ''*.example.com'' \<and>
   \<not> matchHostname ''xexample.com'' ''*.example.com''"
proof -
  have ne: "''*.example.com'' \<noteq> []" by simp
  have g1: "globMatch ''*.example.com'' ''API.b.Example.com''" by code_simp
  have g2: "\<not> globMatch ''*.example.com'' ''example.com.evil.test''" by code_simp
  have g3: "\<not> globMatch ''*.example.com'' ''xexample.com''" by code_simp
  from matchHostname_anchored_glob[OF ne, of "''API.b.Example.com''"]
       matchHostname_anchored_glob[OF ne, of "''example.com.evil.test''"]
       matchHostname_anchored_glob[OF ne, of "''xexample.com''"]
       g1 g2 g3
  show ?thesis by simp
qed

subsection \<open>Auxiliary facts on the allowlist defence\<close>

lemma sublist_of_Nil: "secret \<noteq> [] \<Longrightarrow> \<not> sublist secret []"
  by simp

lemma secretValueInHeaders_occurs:
  assumes "secret \<noteq> []"
  shows "secretValueInHeaders rt secret headers = secretOccursInHeaders rt headers secret"
proof (induction headers)
  case Nil
  show ?case by (simp add: secretOccursInHeaders_def)
next
  case (Cons h rest)
  obtain headerName headerValue where h: "h = (headerName, headerValue)" by (cases h)
  have rest: "secretOccursInHeaders rt (h # rest) secret =
     ((sublist secret headerValue \<or>
        (isCredentialHeader headerName \<and>
         (case matchBasicAuth headerValue of
            Some (scheme, whitespace, token, trailing) \<Rightarrow>
              sublist secret (utf8ToString rt (base64Decode token))
          | None \<Rightarrow> False))) \<or> secretOccursInHeaders rt rest secret)"
    by (simp add: secretOccursInHeaders_def h)
  show ?case
  proof (cases "headerValue = []")
    case True
    have "matchBasicAuth [] = None" by (simp add: matchBasicAuth_def toLowerCase_def)
    with True assms show ?thesis
      unfolding rest by (simp add: h Cons)
  next
    case False
    show ?thesis
      unfolding rest using False assms
      by (auto simp: h Cons includesStr_def decodeBasicAuth_def split: option.splits)
  qed
qed

lemma requestContainsSecretValueInHeaders_occurs:
  "requestContainsSecretValueInHeaders rt headers entry =
     (entryValue entry \<noteq> [] \<and> secretOccursInHeaders rt headers (entryValue entry))"
  by (simp add: requestContainsSecretValueInHeaders_def secretValueInHeaders_occurs)

lemma requestContainsSecretValueInQuery_occurs:
  "requestContainsSecretValueInQuery rt url entry =
     (entryValue entry \<noteq> [] \<and> secretOccursInQuery rt url (entryValue entry))"
  by (auto simp: requestContainsSecretValueInQuery_def secretOccursInQuery_def includesStr_def
        split: option.splits)

lemma assertSecretValuesLoop_step:
  "assertSecretValuesLoop rt request hostname checkQuery (entry # rest) =
     (if secretSmuggled rt request hostname checkQuery entry
      then Inl (HttpRequestBlockedError (blockedMessage entry hostname))
      else assertSecretValuesLoop rt request hostname checkQuery rest)"
  by (auto simp: secretSmuggled_def requestContainsSecretValueInHeaders_occurs
        requestContainsSecretValueInQuery_occurs)

lemma assertSecretValuesLoop_ok:
  "(assertSecretValuesLoop rt request hostname checkQuery entries = Inr ()) =
     (\<not> list_ex (secretSmuggled rt request hostname checkQuery) entries)"
  by (induction entries) (simp_all add: assertSecretValuesLoop_step del: assertSecretValuesLoop.simps(2))

lemma assertSecretValuesLoop_blocked:
  "assertSecretValuesLoop rt request hostname checkQuery entries = Inl e \<Longrightarrow>
     \<exists>entry \<in> set entries. secretSmuggled rt request hostname checkQuery entry \<and>
        e = HttpRequestBlockedError (blockedMessage entry hostname)"
  by (induction entries)
     (auto simp: assertSecretValuesLoop_step simp del: assertSecretValuesLoop.simps(2)
           split: if_splits)

lemma assertSecretValuesAllowedForHost_loop:
  "assertSecretValuesAllowedForHost rt request hostname entries checkQuery =
     assertSecretValuesLoop rt request hostname checkQuery entries"
  by (cases entries) (simp_all add: assertSecretValuesAllowedForHost_def)

lemma sum_unit_cases: "(r :: error + unit) = Inr () \<or> (\<exists>e. r = Inl e)"
  by (cases r) auto

subsection \<open>Auxiliary facts on the substitution\<close>

lemma splitOn_absent: "\<not> sublist sep s \<Longrightarrow> splitOn sep s = [s]"
proof (induction sep s rule: splitOn.induct)
  case (1 sep)
  show ?case by simp
next
  case (2 sep c cs)
  have np: "\<not> prefix sep (c # cs)" using "2.prems" prefix_imp_sublist by blast
  have "\<not> sublist sep cs" using "2.prems" by (meson sublist_Cons_right)
  with 2 np show ?case by simp
qed

lemma replaceAll_absent: "\<not> includesStr text search \<Longrightarrow> replaceAll text search replacement = text"
  by (simp add: replaceAll_def includesStr_def split_def splitOn_absent)

lemma replaceSecretPlaceholdersLoop_result:
  "replaceSecretPlaceholdersLoop hostname entries updated = Inr r \<Longrightarrow> r = substituteAll entries updated"
proof (induction entries arbitrary: updated)
  case Nil
  then show ?case by (simp add: substituteAll_def)
next
  case (Cons entry rest)
  show ?case
  proof (cases "includesStr updated (entryPlaceholder entry)")
    case False
    with Cons show ?thesis by (simp add: substituteAll_def replaceAll_absent)
  next
    case True
    with Cons.prems have "replaceSecretPlaceholdersLoop hostname rest
        (replaceAll updated (entryPlaceholder entry) (entryValue entry)) = Inr r"
      by (simp add: assertSecretAllowedForHost_def split: if_splits)
    from Cons.IH[OF this] show ?thesis by (simp add: substituteAll_def)
  qed
qed

lemma replaceAll_Nil: "replaceAll [] search replacement = []"
  by (simp add: replaceAll_def split_def)

lemma replaceAll_Cons:
  assumes "search \<noteq> []"
  shows "replaceAll (c # cs) search replacement =
     (if prefix search (c # cs)
      then replacement @ replaceAll (drop (length search) (c # cs)) search replacement
      else c # replaceAll cs search replacement)"
proof (cases "prefix search (c # cs)")
  case True
  obtain y ys where "splitOn search (drop (length search) (c # cs)) = y # ys"
    using splitOn_not_Nil[of search "drop (length search) (c # cs)"]
    by (cases "splitOn search (drop (length search) (c # cs))") auto
  with True assms show ?thesis
    by (simp add: replaceAll_def split_def)
next
  case False
  obtain y ys where "splitOn search cs = y # ys"
    using splitOn_not_Nil[of search cs] by (cases "splitOn search cs") auto
  with False assms show ?thesis
    by (cases ys) (simp_all add: replaceAll_def split_def)
qed

lemma replaceAll_skip:
  assumes "g \<notin> set t"
  shows "replaceAll (t @ u) (g # rest) replacement = t @ replaceAll u (g # rest) replacement"
  using assms
proof (induction t)
  case Nil
  show ?case by simp
next
  case (Cons a t)
  then have "\<not> prefix (g # rest) ((a # t) @ u)" by auto
  with Cons show ?case by (simp add: replaceAll_Cons)
qed

lemma isPlaceholder_shape:
  assumes "isPlaceholder p"
  shows "length p = 64" "\<exists>t. p = CHR ''G'' # t \<and> CHR ''G'' \<notin> set t"
proof -
  show "length p = 64" using assms by (simp add: isPlaceholder_def)
  have p: "p = placeholderPrefix @ drop 16 p"
    using assms by (metis append_take_drop_id isPlaceholder_def)
  have hex: "set (drop 16 p) \<subseteq> set hexDigits"
    using assms by (auto simp: isPlaceholder_def list_all_iff)
  have "CHR ''G'' \<notin> set hexDigits" by (simp add: hexDigits_def)
  then have "CHR ''G'' \<notin> set (drop 16 p)" using hex by blast
  then have "CHR ''G'' \<notin> set (''ONDOLIN_SECRET_'' @ drop 16 p)" by simp
  moreover have "p = CHR ''G'' # (''ONDOLIN_SECRET_'' @ drop 16 p)"
    using p by (simp add: placeholderPrefix_def)
  ultimately show "\<exists>t. p = CHR ''G'' # t \<and> CHR ''G'' \<notin> set t" by blast
qed


lemma occurrence_after_prefix:
  assumes lp: "length p = length q"
    and pq: "p \<noteq> q"
    and q: "q = g # tq" 
    and p: "p = g # tp" "g \<notin> set tp"
    and occ: "sublist q (p @ rest)"
  shows "sublist q rest"
proof -
  from occ obtain xs ys where dec: "p @ rest = xs @ q @ ys" by (auto simp: sublist_def)
  show ?thesis
  proof (cases "length p \<le> length xs")
    case True
    have "take (length p) (p @ rest) = take (length p) (xs @ q @ ys)" using dec by simp
    then have "p = take (length p) xs" using True by simp
    then have "xs = p @ drop (length p) xs" by (metis append_take_drop_id)
    then have "p @ rest = p @ (drop (length p) xs @ q @ ys)" using dec by (metis append.assoc)
    then have "rest = drop (length p) xs @ q @ ys" by simp
    then show ?thesis by (auto simp: sublist_def)
  next
    case False
    then have i: "length xs < length p" by simp
    have "(p @ rest) ! length xs = (xs @ q @ ys) ! length xs" using dec by simp
    then have g: "p ! length xs = g" using i q by (simp add: nth_append)
    show ?thesis
    proof (cases xs)
      case Nil
      then have "p @ rest = q @ ys" using dec by simp
      then have "p = q" using lp by (metis append_eq_append_conv)
      with pq show ?thesis by simp
    next
      case (Cons x xs')
      then have "p ! length xs = tp ! length xs'" using p(1) by simp
      moreover have "length xs' < length tp" using i Cons p(1) by simp
      ultimately have "g \<in> set tp" using g by (metis nth_mem)
      with p(2) show ?thesis by simp
    qed
  qed
qed

lemma placeholder_survives:
  assumes p: "isPlaceholder p" and q: "isPlaceholder q" and pq: "p \<noteq> q"
  shows "sublist q s \<Longrightarrow> sublist q (replaceAll s p v)"
proof (induction "length s" arbitrary: s rule: less_induct)
  case less
  obtain tp where tp: "p = CHR ''G'' # tp" "CHR ''G'' \<notin> set tp"
    using isPlaceholder_shape(2)[OF p] by blast
  obtain tq where tq: "q = CHR ''G'' # tq" "CHR ''G'' \<notin> set tq"
    using isPlaceholder_shape(2)[OF q] by blast
  have len: "length p = length q"
    using isPlaceholder_shape(1)[OF p] isPlaceholder_shape(1)[OF q] by simp
  have pne: "p \<noteq> []" using tp(1) by simp
  show ?case
  proof (cases s)
    case Nil
    with less.prems tq(1) show ?thesis by simp
  next
    case (Cons c cs)
    show ?thesis
    proof (cases "prefix p s")
      case True
      then obtain rest where rest: "s = p @ rest" by (auto simp: prefix_def)
      have dr: "drop (length p) s = rest" using rest by simp
      have "sublist q rest"
        using occurrence_after_prefix[OF len pq tq(1) tp less.prems[unfolded rest]] .
      moreover have "length rest < length s" using rest pne by simp
      ultimately have "sublist q (replaceAll rest p v)" using less.hyps by blast
      then have "sublist q (v @ replaceAll rest p v)" by (simp add: sublist_append)
      moreover have "replaceAll s p v = v @ replaceAll rest p v"
        using True dr pne by (simp add: Cons[symmetric] replaceAll_Cons[OF pne, of c cs, unfolded Cons[symmetric]])
      ultimately show ?thesis by simp
    next
      case False
      have r: "replaceAll s p v = c # replaceAll cs p v"
        using False pne by (simp add: Cons replaceAll_Cons)
      from less.prems have "prefix q (c # cs) \<or> sublist q cs"
        unfolding Cons tq(1) by (simp add: sublist_Cons_right)
      then show ?thesis
      proof
        assume "sublist q cs"
        then have "sublist q (replaceAll cs p v)" using less.hyps[of cs] Cons by simp
        then show ?thesis unfolding r by (simp add: sublist_Cons_right tq(1))
      next
        assume "prefix q (c # cs)"
        then obtain rest where rest: "s = q @ rest" using Cons by (auto simp: prefix_def)
        have c: "c = CHR ''G''" and cs: "cs = tq @ rest" using rest Cons tq(1) by auto
        have "replaceAll cs p v = tq @ replaceAll rest p v"
          unfolding cs tp(1) using tq(2) by (rule replaceAll_skip)
        then have "replaceAll s p v = q @ replaceAll rest p v"
          unfolding r by (simp add: c tq(1))
        then show ?thesis by (simp add: sublist_def) (metis append_Nil)
      qed
    qed
  qed
qed

subsection \<open>The substitution against its description\<close>

lemma blocked_error: "isl r \<Longrightarrow> \<exists>message. r = Inl (HttpRequestBlockedError message)"
proof -
  assume "isl r"
  then obtain e where e: "r = Inl e" by (auto simp: isl_def)
  obtain message where "e = HttpRequestBlockedError message" by (cases e)
  with e show ?thesis by blast
qed

lemma substituteAll_Nil: "substituteAll [] str = str"
  by (simp add: substituteAll_def)

lemma substituteAll_Cons:
  "substituteAll (entry # rest) str =
     substituteAll rest (replaceAll str (entryPlaceholder entry) (entryValue entry))"
  by (simp add: substituteAll_def)

lemma substitutionPermitted_Nil: "substitutionPermitted hostname [] str"
  by (simp add: substitutionPermitted_def)

lemma substitutionPermitted_Cons:
  "substitutionPermitted hostname (entry # rest) str =
     ((includesStr str (entryPlaceholder entry) \<longrightarrow> matchesAnyHost hostname (entryHosts entry)) \<and>
      substitutionPermitted hostname rest (replaceAll str (entryPlaceholder entry) (entryValue entry)))"
proof -
  have u: "[0 ..< length (entry # rest)] = 0 # map Suc [0 ..< length rest]"
    by (simp add: upt_conv_Cons map_Suc_upt del: upt_Suc)
  show ?thesis
    unfolding substitutionPermitted_def u
    by (simp add: list.pred_map comp_def substituteAll_Cons substituteAll_Nil)
qed

lemma replaceSecretPlaceholdersLoop_permitted:
  "substitutionPermitted hostname entries str \<Longrightarrow>
   replaceSecretPlaceholdersLoop hostname entries str = Inr (substituteAll entries str)"
proof (induction entries arbitrary: str)
  case Nil
  show ?case by (simp add: substituteAll_Nil)
next
  case (Cons entry rest)
  then show ?case
    by (cases "includesStr str (entryPlaceholder entry)")
       (simp_all add: substitutionPermitted_Cons substituteAll_Cons replaceAll_absent
          assertSecretAllowedForHost_def)
qed

lemma replaceSecretPlaceholdersLoop_refused:
  "\<not> substitutionPermitted hostname entries str \<Longrightarrow>
   isl (replaceSecretPlaceholdersLoop hostname entries str)"
proof (induction entries arbitrary: str)
  case Nil
  then show ?case by (simp add: substitutionPermitted_Nil)
next
  case (Cons entry rest)
  then show ?case
    by (cases "includesStr str (entryPlaceholder entry)")
       (auto simp: substitutionPermitted_Cons replaceAll_absent assertSecretAllowedForHost_def)
qed

lemma replaceSecretPlaceholdersInString_permitted:
  "substitutionPermitted hostname entries str \<Longrightarrow>
   replaceSecretPlaceholdersInString str hostname entries = Inr (substituteAll entries str)"
  by (simp add: replaceSecretPlaceholdersInString_def replaceSecretPlaceholdersLoop_permitted)

lemma replaceSecretPlaceholdersInString_refused:
  "\<not> substitutionPermitted hostname entries str \<Longrightarrow>
   isl (replaceSecretPlaceholdersInString str hostname entries)"
  by (simp add: replaceSecretPlaceholdersInString_def replaceSecretPlaceholdersLoop_refused)

lemma header_step_permitted:
  assumes "headerPermitted rt hostname entries headerName str"
  shows "replaceSecretPlaceholdersInString str hostname entries = Inr (substituteAll entries str)"
    and "replaceBasicAuthSecretPlaceholders rt headerName (substituteAll entries str) hostname entries =
           Inr (substitutedHeaderValue rt entries headerName str)"
proof -
  from assms show "replaceSecretPlaceholdersInString str hostname entries = Inr (substituteAll entries str)"
    by (simp add: headerPermitted_def replaceSecretPlaceholdersInString_permitted)
  from assms show "replaceBasicAuthSecretPlaceholders rt headerName (substituteAll entries str) hostname entries =
           Inr (substitutedHeaderValue rt entries headerName str)"
    by (auto simp: headerPermitted_def replaceBasicAuthSecretPlaceholders_def
          substitutedHeaderValue_def Let_def replaceSecretPlaceholdersInString_permitted
          split: option.splits if_splits)
qed

lemma header_step_refused:
  assumes "\<not> headerPermitted rt hostname entries headerName str"
  shows "isl (replaceSecretPlaceholdersInString str hostname entries) \<or>
         isl (replaceBasicAuthSecretPlaceholders rt headerName (substituteAll entries str) hostname entries)"
proof (cases "substitutionPermitted hostname entries str")
  case False
  then show ?thesis by (simp add: replaceSecretPlaceholdersInString_refused)
next
  case True
  with assms obtain scheme whitespace token trailing where
    c: "isCredentialHeader headerName"
    and m: "matchBasicAuth (substituteAll entries str) = Some (scheme, whitespace, token, trailing)"
    and n: "\<not> substitutionPermitted hostname entries (utf8ToString rt (base64Decode token))"
    by (auto simp: headerPermitted_def split: option.splits if_splits)
  from replaceSecretPlaceholdersInString_refused[OF n]
  obtain e where "replaceSecretPlaceholdersInString (utf8ToString rt (base64Decode token)) hostname entries = Inl e"
    by (auto simp: isl_def)
  then have "isl (replaceBasicAuthSecretPlaceholders rt headerName (substituteAll entries str) hostname entries)"
    using c m by (simp add: replaceBasicAuthSecretPlaceholders_def Let_def)
  then show ?thesis by simp
qed

lemma replaceHeadersLoop_permitted:
  "headersPermitted rt hostname entries headers \<Longrightarrow>
   replaceHeadersLoop rt hostname entries headers = Inr (substitutedHeaders rt entries headers)"
proof (induction headers)
  case Nil
  show ?case by (simp add: substitutedHeaders_def)
next
  case (Cons h rest)
  obtain headerName str where h: "h = (headerName, str)" by (cases h)
  from Cons.prems have p: "headerPermitted rt hostname entries headerName str"
    and r: "headersPermitted rt hostname entries rest"
    by (simp_all add: headersPermitted_def h)
  from Cons.IH[OF r] show ?case
    by (simp add: h header_step_permitted[OF p] substitutedHeaders_def)
qed

lemma replaceHeadersLoop_refused:
  "\<not> headersPermitted rt hostname entries headers \<Longrightarrow>
   isl (replaceHeadersLoop rt hostname entries headers)"
proof (induction headers)
  case Nil
  then show ?case by (simp add: headersPermitted_def)
next
  case (Cons h rest)
  obtain headerName str where h: "h = (headerName, str)" by (cases h)
  show ?case
  proof (cases "headerPermitted rt hostname entries headerName str")
    case True
    with Cons.prems have "\<not> headersPermitted rt hostname entries rest"
      by (simp add: headersPermitted_def h)
    from Cons.IH[OF this] show ?thesis
      by (auto simp: h header_step_permitted[OF True] isl_def)
  next
    case False
    show ?thesis
    proof (cases "substitutionPermitted hostname entries str")
      case p: True
      from header_step_refused[OF False] replaceSecretPlaceholdersInString_permitted[OF p]
      show ?thesis by (auto simp: h isl_def)
    next
      case p: False
      from replaceSecretPlaceholdersInString_refused[OF p]
      show ?thesis by (auto simp: h isl_def)
    qed
  qed
qed

lemma substitutedHeaderValue_Nil: "substitutedHeaderValue rt [] headerName str = str"
  by (simp add: substitutedHeaderValue_def substituteAll_Nil Let_def split: option.splits)

lemma substitutedHeaders_Nil: "substitutedHeaders rt [] headers = headers"
  by (induction headers) (auto simp: substitutedHeaders_def substitutedHeaderValue_Nil)

lemma headersPermitted_Nil: "headersPermitted rt hostname [] headers"
  by (induction headers)
     (auto simp: headersPermitted_def headerPermitted_def substitutionPermitted_Nil
        split: option.splits)

lemma replaceSecretPlaceholdersInHeaders_permitted:
  "headersPermitted rt hostname entries (requestHeaders request) \<Longrightarrow>
   replaceSecretPlaceholdersInHeaders rt request hostname entries =
     Inr (substitutedHeaders rt entries (requestHeaders request))"
  by (cases entries)
     (simp_all add: replaceSecretPlaceholdersInHeaders_def substitutedHeaders_Nil
        replaceHeadersLoop_permitted)

lemma replaceSecretPlaceholdersInHeaders_refused:
  "\<not> headersPermitted rt hostname entries (requestHeaders request) \<Longrightarrow>
   isl (replaceSecretPlaceholdersInHeaders rt request hostname entries)"
  by (cases entries)
     (simp_all add: replaceSecretPlaceholdersInHeaders_def headersPermitted_Nil
        replaceHeadersLoop_refused)

lemma replaceParamsLoop_permitted:
  "paramsPermitted hostname entries params \<Longrightarrow>
   replaceParamsLoop hostname entries params =
     Inr (substitutedParams entries params, substitutedParams entries params \<noteq> params)"
proof (induction params)
  case Nil
  show ?case by (simp add: substitutedParams_def)
next
  case (Cons p rest)
  obtain name val where p: "p = (name, val)" by (cases p)
  from Cons show ?case
    by (auto simp: p paramsPermitted_def substitutedParams_def
          replaceSecretPlaceholdersInString_permitted)
qed

lemma replaceParamsLoop_refused:
  "\<not> paramsPermitted hostname entries params \<Longrightarrow> isl (replaceParamsLoop hostname entries params)"
proof (induction params)
  case Nil
  then show ?case by (simp add: paramsPermitted_def)
next
  case (Cons p rest)
  obtain name val where p: "p = (name, val)" by (cases p)
  show ?case
  proof (cases "substitutionPermitted hostname entries name")
    case False
    from replaceSecretPlaceholdersInString_refused[OF False] show ?thesis
      by (auto simp: p isl_def)
  next
    case n: True
    show ?thesis
    proof (cases "substitutionPermitted hostname entries val")
      case False
      from replaceSecretPlaceholdersInString_refused[OF False] show ?thesis
        by (auto simp: p isl_def replaceSecretPlaceholdersInString_permitted[OF n])
    next
      case v: True
      with n Cons.prems have "\<not> paramsPermitted hostname entries rest"
        by (simp add: paramsPermitted_def p)
      from Cons.IH[OF this] show ?thesis
        by (auto simp: p isl_def replaceSecretPlaceholdersInString_permitted[OF n]
              replaceSecretPlaceholdersInString_permitted[OF v])
    qed
  qed
qed

lemma substitutedParams_Nil: "substitutedParams [] params = params"
  by (induction params) (auto simp: substitutedParams_def substituteAll_Nil)

lemma paramsPermitted_Nil: "paramsPermitted hostname [] params"
  by (induction params) (auto simp: paramsPermitted_def substitutionPermitted_Nil)

lemma replaceSecretPlaceholdersInUrlParameters_permitted:
  "queryPermitted rt hostname entries url \<Longrightarrow>
   replaceSecretPlaceholdersInUrlParameters rt url hostname entries True =
     Inr (rewrittenUrl rt entries url)"
  by (cases entries)
     (auto simp: replaceSecretPlaceholdersInUrlParameters_def queryPermitted_def rewrittenUrl_def
        substitutedParams_Nil replaceParamsLoop_permitted Let_def split: option.splits)

lemma replaceSecretPlaceholdersInUrlParameters_refused:
  assumes "\<not> queryPermitted rt hostname entries url"
  shows "isl (replaceSecretPlaceholdersInUrlParameters rt url hostname entries True)"
proof -
  from assms obtain parsed where p: "parseURL rt url = Some parsed" "urlSearch parsed \<noteq> []"
    and n: "\<not> paramsPermitted hostname entries (urlSearchParams parsed)"
    by (auto simp: queryPermitted_def split: option.splits)
  from n have ne: "entries \<noteq> []" using paramsPermitted_Nil by blast
  from replaceParamsLoop_refused[OF n] obtain e where
    "replaceParamsLoop hostname entries (urlSearchParams parsed) = Inl e"
    by (auto simp: isl_def)
  with p ne show ?thesis by (simp add: replaceSecretPlaceholdersInUrlParameters_def)
qed

lemma replaceSecretPlaceholdersInUrlParameters_off:
  "replaceSecretPlaceholdersInUrlParameters rt url hostname entries False = Inr url"
  by (simp add: replaceSecretPlaceholdersInUrlParameters_def)

lemma assertSecretValues_smuggled:
  "(assertSecretValuesAllowedForHost rt request hostname entries checkQuery = Inr ()) =
     (\<not> list_ex (secretSmuggled rt request hostname checkQuery) entries)"
  by (simp add: assertSecretValuesAllowedForHost_loop assertSecretValuesLoop_ok)

lemma isl_bind:
  "isl r \<Longrightarrow> isl (case r of Inl e \<Rightarrow> Inl e | Inr x \<Rightarrow> f x)"
  by (auto simp: isl_def)

lemma applySecretsToRequest_smuggled:
  assumes "list_ex (secretSmuggled rt request (getHostname rt request) (replaceSecretsInQuery hooks))
             (secretEntries hooks)"
  shows "isl (applySecretsToRequest rt hooks request)"
proof -
  let ?a = "assertSecretValuesAllowedForHost rt request (getHostname rt request) (secretEntries hooks)
              (replaceSecretsInQuery hooks)"
  from assms have "?a \<noteq> Inr ()" by (simp add: assertSecretValues_smuggled)
  then obtain e where "?a = Inl e" using sum_unit_cases[of ?a] by blast
  then show ?thesis by (simp add: applySecretsToRequest_def Let_def)
qed

lemma applySecretsToRequest_refused_headers:
  assumes "\<not> headersPermitted rt (getHostname rt request) (secretEntries hooks) (requestHeaders request)"
  shows "isl (applySecretsToRequest rt hooks request)"
proof -
  from replaceSecretPlaceholdersInHeaders_refused[OF assms] obtain e where
    "replaceSecretPlaceholdersInHeaders rt request (getHostname rt request) (secretEntries hooks) = Inl e"
    by (auto simp: isl_def)
  then show ?thesis by (simp add: applySecretsToRequest_def Let_def split: sum.splits)
qed

lemma applySecretsToRequest_refused_query:
  assumes "replaceSecretsInQuery hooks"
    and "\<not> queryPermitted rt (getHostname rt request) (secretEntries hooks) (requestUrl request)"
  shows "isl (applySecretsToRequest rt hooks request)"
proof -
  from replaceSecretPlaceholdersInUrlParameters_refused[OF assms(2)] obtain e where
    "replaceSecretPlaceholdersInUrlParameters rt (requestUrl request) (getHostname rt request)
       (secretEntries hooks) True = Inl e"
    by (auto simp: isl_def)
  with assms(1) show ?thesis by (simp add: applySecretsToRequest_def Let_def split: sum.splits)
qed

lemma applySecretsToRequest_passed:
  assumes "\<not> list_ex (secretSmuggled rt request (getHostname rt request) (replaceSecretsInQuery hooks))
             (secretEntries hooks)"
    and "headersPermitted rt (getHostname rt request) (secretEntries hooks) (requestHeaders request)"
    and "replaceSecretsInQuery hooks \<longrightarrow>
           queryPermitted rt (getHostname rt request) (secretEntries hooks) (requestUrl request)"
  shows "applySecretsToRequest rt hooks request =
     Inr (request\<lparr>requestUrl := (if replaceSecretsInQuery hooks
                                  then rewrittenUrl rt (secretEntries hooks) (requestUrl request)
                                  else requestUrl request),
                  requestHeaders := substitutedHeaders rt (secretEntries hooks) (requestHeaders request)\<rparr>)"
proof -
  have a: "assertSecretValuesAllowedForHost rt request (getHostname rt request) (secretEntries hooks)
              (replaceSecretsInQuery hooks) = Inr ()"
    using assms(1) by (simp add: assertSecretValues_smuggled)
  show ?thesis
  proof (cases "replaceSecretsInQuery hooks")
    case True
    with assms(3) have q: "queryPermitted rt (getHostname rt request) (secretEntries hooks) (requestUrl request)"
      by simp
    show ?thesis
      using True a
      by (simp add: applySecretsToRequest_def Let_def
            replaceSecretPlaceholdersInHeaders_permitted[OF assms(2)]
            replaceSecretPlaceholdersInUrlParameters_permitted[OF q])
  next
    case False
    then show ?thesis
      using a
      by (simp add: applySecretsToRequest_def Let_def
            replaceSecretPlaceholdersInHeaders_permitted[OF assms(2)]
            replaceSecretPlaceholdersInUrlParameters_off)
  qed
qed

lemma secretSmuggled_off:
  "secretSmuggled rt request hostname False =
     (\<lambda>entry. \<not> matchesAnyHost hostname (entryHosts entry) \<and> entryValue entry \<noteq> [] \<and>
               secretOccursInHeaders rt (requestHeaders request) (entryValue entry))"
  by (rule ext) (simp add: secretSmuggled_def)

lemma secretSmuggled_on:
  "secretSmuggled rt request hostname True =
     (\<lambda>entry. \<not> matchesAnyHost hostname (entryHosts entry) \<and> entryValue entry \<noteq> [] \<and>
               (secretOccursInHeaders rt (requestHeaders request) (entryValue entry) \<or>
                secretOccursInQuery rt (requestUrl request) (entryValue entry)))"
  by (rule ext) (simp add: secretSmuggled_def)

lemma secretSmuggled_flag:
  "secretSmuggled rt request hostname checkQuery =
     (\<lambda>entry. \<not> matchesAnyHost hostname (entryHosts entry) \<and> entryValue entry \<noteq> [] \<and>
               (secretOccursInHeaders rt (requestHeaders request) (entryValue entry) \<or>
                checkQuery \<and> secretOccursInQuery rt (requestUrl request) (entryValue entry)))"
  by (rule ext) (simp add: secretSmuggled_def)


subsection \<open>Facts for the examples\<close>

lemma isInternalAddress_dottedQuad:
  assumes "a < 256" "b < 256" "c < 256" "d < 256"
  shows "isInternalAddress rt (dottedQuad a b c d) = inBlockedIPv4Range a b c d"
  using assms
  by (simp add: netIsIP_def isInternalAddress_def isIPv4_dottedQuad isPrivateIPv4_dottedQuad)

lemma example_allowedHosts:
  "allowedHosts (createHttpHooks exampleRng (exampleOptions\<lparr>optIsIpAllowed := hook\<rparr>)) = [''api.example.com'']"
  by (simp add: createHttpHooks_def exampleOptions_def uniqueHosts_def normalizeHostnamePattern_def
        Let_def trim_def isWhiteSpace_def toLowerCase_def toLowerChar_def upperLetters_def lowerLetters_def
        split: prod.splits)

lemma example_public_address: "\<not> isInternalAddress exampleRuntime ''93.184.216.34''"
proof -
  have "dottedQuad 93 184 216 34 = ''93.184.216.34''"
    by (simp add: dottedQuad_def decimalText.simps digitChar_def)
  moreover have "\<not> inBlockedIPv4Range 93 184 216 34"
    by (simp add: inBlockedIPv4Range_def blockedIPv4Ranges_def inPrefix_def ipv4Number_def)
  ultimately show ?thesis
    using isInternalAddress_dottedQuad[of 93 184 216 34 exampleRuntime] by simp
qed

lemma example_host_matches: "matchesAnyHost ''API.example.com'' [''api.example.com'']"
  by (simp add: matchesAnyHost_def matchHostname_glob toLowerCase_def toLowerChar_def upperLetters_def
        lowerLetters_def sameIgnoringCase_def)

lemma example_host_differs: "\<not> matchesAnyHost ''evil.test'' [''api.example.com'']"
  by (simp add: matchesAnyHost_def matchHostname_glob toLowerCase_def toLowerChar_def upperLetters_def
        lowerLetters_def sameIgnoringCase_def)

lemma example_placeholder: "placeholderPrefix @ toHex (randomBytes exampleRng 0 24) = examplePlaceholder"
  by code_simp

lemma example_entries: "secretEntries (createHttpHooks exampleRng exampleOptions) = [exampleEntry]"
proof -
  have n: "normalizeHostnamePattern '' API.example.com '' = ''api.example.com''"
    by (simp add: normalizeHostnamePattern_def trim_def isWhiteSpace_def toLowerCase_def
          toLowerChar_def upperLetters_def lowerLetters_def)
  show ?thesis
    unfolding createHttpHooks_entries
    by (simp add: exampleOptions_def exampleEntry_def example_placeholder n)
qed

lemma assignProperty_other: "key \<noteq> name \<Longrightarrow> assignProperty object name val key = object key"
  by (simp add: assignProperty_def)

lemma assignProperty_same:
  "name \<noteq> ''__proto__'' \<Longrightarrow> assignProperty object name val name = Some val"
  by (simp add: assignProperty_def)

lemma assignProperty_proto: "assignProperty object name val ''__proto__'' = object ''__proto__''"
  by (simp add: assignProperty_def)

lemma dom_assignProperty:
  "dom (assignProperty object name val) = dom object \<union> ({name} - {''__proto__''})"
  by (auto simp: assignProperty_def)

lemma secretsLoop_env_other:
  "name \<notin> fst ` set secrets \<Longrightarrow>
   fst (secretsLoop rng pos secrets envSoFar entries) name = envSoFar name"
proof (induction secrets arbitrary: pos envSoFar entries)
  case Nil
  show ?case by simp
next
  case (Cons s rest)
  obtain n secret where s: "s = (n, secret)" by (cases s)
  from Cons.prems have "name \<noteq> n" "name \<notin> fst ` set rest" by (auto simp: s)
  then show ?case by (simp add: s Let_def Cons.IH assignProperty_other)
qed

lemma secretsLoop_env_proto:
  "fst (secretsLoop rng pos secrets envSoFar entries) ''__proto__'' = envSoFar ''__proto__''"
proof (induction secrets arbitrary: pos envSoFar entries)
  case Nil
  show ?case by simp
next
  case (Cons s rest)
  obtain n secret where s: "s = (n, secret)" by (cases s)
  show ?case by (simp add: s Let_def Cons.IH assignProperty_proto)
qed

lemma secretsLoop_env_distinct:
  "distinct (map fst secrets) \<Longrightarrow> i < length secrets \<Longrightarrow>
   fst (secrets ! i) \<noteq> ''__proto__'' \<Longrightarrow>
   fst (secretsLoop rng pos secrets envSoFar entries) (fst (secrets ! i)) =
     Some (placeholderPrefix @ toHex (randomBytes rng (pos + 24 * i) 24))"
proof (induction secrets arbitrary: pos envSoFar entries i)
  case Nil
  then show ?case by simp
next
  case (Cons s rest)
  obtain n secret where s: "s = (n, secret)" by (cases s)
  show ?case
  proof (cases i)
    case 0
    have "n \<notin> fst ` set rest" using Cons.prems(1) by (auto simp: s)
    moreover have "n \<noteq> ''__proto__''" using Cons.prems(3) by (simp add: 0 s)
    ultimately show ?thesis
      by (simp add: 0 s Let_def secretsLoop_env_other assignProperty_same)
  next
    case (Suc j)
    have d: "distinct (map fst rest)" and j: "j < length rest"
      and p: "fst (rest ! j) \<noteq> ''__proto__''"
      using Cons.prems Suc by auto
    show ?thesis
      using Cons.IH[OF d j p, where pos = "pos + 24"] by (simp add: Suc s Let_def add.assoc)
  qed
qed

lemma secretsLoop_env_member:
  "name \<in> fst ` set secrets \<Longrightarrow> name \<noteq> ''__proto__'' \<Longrightarrow>
   \<exists>i < length secrets. fst (secretsLoop rng pos secrets envSoFar entries) name =
     Some (placeholderPrefix @ toHex (randomBytes rng (pos + 24 * i) 24))"
proof (induction secrets arbitrary: pos envSoFar entries)
  case Nil
  then show ?case by simp
next
  case (Cons s rest)
  obtain n secret where s: "s = (n, secret)" by (cases s)
  show ?case
  proof (cases "name \<in> fst ` set rest")
    case True
    from Cons.IH[OF True Cons.prems(2), where pos = "pos + 24"
        and envSoFar = "assignProperty envSoFar n (placeholderPrefix @ toHex (randomBytes rng pos 24))"
        and entries = "entries @ [\<lparr>entryName = n,
                           entryPlaceholder = placeholderPrefix @ toHex (randomBytes rng pos 24),
                           entryValue = secretValue secret,
                           entryHosts = map normalizeHostnamePattern (secretHosts secret)\<rparr>]"]
    obtain j where "j < length rest"
      "fst (secretsLoop rng (pos + 24) rest
             (assignProperty envSoFar n (placeholderPrefix @ toHex (randomBytes rng pos 24)))
             (entries @ [\<lparr>entryName = n,
                           entryPlaceholder = placeholderPrefix @ toHex (randomBytes rng pos 24),
                           entryValue = secretValue secret,
                           entryHosts = map normalizeHostnamePattern (secretHosts secret)\<rparr>])) name =
       Some (placeholderPrefix @ toHex (randomBytes rng (pos + 24 + 24 * j) 24))"
      by blast
    then have "Suc j < length (s # rest) \<and>
      fst (secretsLoop rng pos (s # rest) envSoFar entries) name =
       Some (placeholderPrefix @ toHex (randomBytes rng (pos + 24 * Suc j) 24))"
      by (simp add: s Let_def add.assoc)
    then show ?thesis by blast
  next
    case False
    then have "name = n" using Cons.prems by (auto simp: s)
    then have "0 < length (s # rest) \<and>
      fst (secretsLoop rng pos (s # rest) envSoFar entries) name =
       Some (placeholderPrefix @ toHex (randomBytes rng (pos + 24 * 0) 24))"
      using False Cons.prems(2) by (simp add: s Let_def secretsLoop_env_other assignProperty_same)
    then show ?thesis by blast
  qed
qed

lemma secretsLoop_dom:
  "dom (fst (secretsLoop rng pos secrets envSoFar entries)) =
     dom envSoFar \<union> (fst ` set secrets - {''__proto__''})"
proof (induction secrets arbitrary: pos envSoFar entries)
  case Nil
  show ?case by simp
next
  case (Cons s rest)
  obtain n secret where s: "s = (n, secret)" by (cases s)
  show ?case by (simp add: s Let_def Cons.IH dom_assignProperty) auto
qed

lemma length_toHex: "length (toHex buffer) = 2 * length buffer"
  by (induction buffer) (auto simp: toHex_def)

lemma hexDigit_member: "k < 16 \<Longrightarrow> hexDigits ! k \<in> set hexDigits"
  by (rule nth_mem) (simp add: hexDigits_def)

lemma toHex_digits: "list_all (\<lambda>c. c \<in> set hexDigits) (toHex buffer)"
proof (induction buffer)
  case Nil
  show ?case by (simp add: toHex_def)
next
  case (Cons c cs)
  have "(of_char c :: nat) < 16 * 16" using nat_of_char_less_256[of c] by simp
  then have "(of_char c :: nat) div 16 < 16" by (rule less_mult_imp_div_less)
  moreover have "(of_char c :: nat) mod 16 < 16" by simp
  ultimately show ?case
    using Cons hexDigit_member by (simp add: toHex_def)
qed

lemma isPlaceholder_generated: "isPlaceholder (placeholderPrefix @ toHex (randomBytes rng pos 24))"
  by (simp add: isPlaceholder_def length_toHex toHex_digits randomBytes_def placeholderPrefix_def)

lemma example_basic_decoded: "base64Decode ''dXNlcjpzM2NyM3Q='' = ''user:s3cr3t''"
  by code_simp

lemma example_basic_match:
  "matchBasicAuth ''basic dXNlcjpzM2NyM3Q='' = Some (''basic'', '' '', ''dXNlcjpzM2NyM3Q='', '''')"
  by (simp add: matchBasicAuth_def isWhiteSpace_def toLowerCase_def toLowerChar_def
        upperLetters_def lowerLetters_def)

lemma example_credential_header: "isCredentialHeader ''Proxy-Authorization''"
  by (simp add: isCredentialHeader_def toLowerCase_def toLowerChar_def upperLetters_def lowerLetters_def)

lemma example_secret_in_credentials: "sublist ''s3cr3t'' ''user:s3cr3t''"
  by (simp add: sublist_code)

lemma example_leak_smuggled:
  "secretSmuggled exampleRuntime exampleLeakRequest ''evil.test'' False exampleEntry"
  by (simp add: secretSmuggled_def exampleEntry_def example_host_differs secretOccursInHeaders_def
        exampleLeakRequest_def example_credential_header example_basic_match example_basic_decoded
        example_secret_in_credentials exampleRuntime_def)

lemma example_clean_not_smuggled:
  "\<not> secretSmuggled exampleRuntime exampleCleanRequest ''evil.test'' False exampleEntry"
  by (simp add: secretSmuggled_def exampleEntry_def secretOccursInHeaders_def
        exampleCleanRequest_def isCredentialHeader_def toLowerCase_def toLowerChar_def
        upperLetters_def lowerLetters_def sublist_code)

lemma example_hostname_evil: "getHostname exampleRuntime exampleQueryLeakRequest = ''evil.test''"
  by (simp add: getHostname_def exampleRuntime_def exampleUrls_def exampleQueryLeakRequest_def
        examplePlaceholder_def toLowerCase_def toLowerChar_def upperLetters_def lowerLetters_def)

lemma example_query_occurs: "secretOccursInQuery exampleRuntime ''https://evil.test/?leak=s3cr3t'' ''s3cr3t''"
  by (simp add: secretOccursInQuery_def exampleRuntime_def exampleUrls_def examplePlaceholder_def
        sublist_code)

lemma example_other_placeholder:
  "placeholderPrefix @ toHex (randomBytes exampleRng 24 24) = exampleOtherPlaceholder"
  by code_simp

lemma example_two_entries:
  "secretEntries (createHttpHooks exampleRng exampleTwoOptions) = [exampleEntry, exampleOtherEntry]"
proof -
  have n: "normalizeHostnamePattern '' API.example.com '' = ''api.example.com''"
    by (simp add: normalizeHostnamePattern_def trim_def isWhiteSpace_def toLowerCase_def
          toLowerChar_def upperLetters_def lowerLetters_def)
  have o: "normalizeHostnamePattern ''other.example.org'' = ''other.example.org''"
    by (simp add: normalizeHostnamePattern_def trim_def isWhiteSpace_def toLowerCase_def
          toLowerChar_def upperLetters_def lowerLetters_def)
  have u: "[0 ..< 2] = [0, Suc 0]" by (simp add: upt_conv_Cons)
  show ?thesis
    unfolding createHttpHooks_entries
    by (simp add: exampleTwoOptions_def exampleEntry_def exampleOtherEntry_def example_placeholder
          example_other_placeholder n o u)
qed

lemma example_hostname_api: "getHostname exampleRuntime exampleQueryRequest = ''api.example.com''"
  by (simp add: getHostname_def exampleRuntime_def exampleUrls_def exampleQueryRequest_def
        examplePlaceholder_def toLowerCase_def toLowerChar_def upperLetters_def lowerLetters_def)

lemma example_api_matches: "matchesAnyHost ''api.example.com'' [''api.example.com'']"
  by (simp add: matchesAnyHost_def matchHostname_glob toLowerCase_def
        toLowerChar_def upperLetters_def lowerLetters_def sameIgnoringCase_def)

lemma example_api_differs: "\<not> matchesAnyHost ''api.example.com'' [''other.example.org'']"
  by (simp add: matchesAnyHost_def matchHostname_glob toLowerCase_def
        toLowerChar_def upperLetters_def lowerLetters_def sameIgnoringCase_def)

lemma example_bearer_substituted:
  "replaceAll (''Bearer '' @ examplePlaceholder) examplePlaceholder ''s3cr3t'' = ''Bearer s3cr3t''"
  by (simp add: replaceAll_def split_def examplePlaceholder_def)

lemma example_placeholder_substituted:
  "replaceAll examplePlaceholder examplePlaceholder ''s3cr3t'' = ''s3cr3t''"
  by (simp add: replaceAll_def split_def examplePlaceholder_def)

lemma example_other_absent:
  "\<not> includesStr ''Bearer s3cr3t'' exampleOtherPlaceholder"
  "\<not> includesStr ''s3cr3t'' exampleOtherPlaceholder"
  "\<not> includesStr ''key'' exampleOtherPlaceholder"
  "\<not> includesStr ''key'' examplePlaceholder"
  by (simp_all add: includesStr_def sublist_code exampleOtherPlaceholder_def examplePlaceholder_def)

lemma example_two_bearer:
  "substituteAll [exampleEntry, exampleOtherEntry] (''Bearer '' @ examplePlaceholder) = ''Bearer s3cr3t''"
  by (simp add: substituteAll_Cons substituteAll_Nil exampleEntry_def exampleOtherEntry_def
        example_bearer_substituted[simplified] replaceAll_absent example_other_absent)

lemma example_two_placeholder:
  "substituteAll [exampleEntry, exampleOtherEntry] examplePlaceholder = ''s3cr3t''"
  by (simp add: substituteAll_Cons substituteAll_Nil exampleEntry_def exampleOtherEntry_def
        example_placeholder_substituted replaceAll_absent example_other_absent)

lemma example_two_key:
  "substituteAll [exampleEntry, exampleOtherEntry] ''key'' = ''key''"
  by (simp add: substituteAll_Cons substituteAll_Nil exampleEntry_def exampleOtherEntry_def
        replaceAll_absent example_other_absent)

lemma example_two_permitted:
  "substitutionPermitted ''api.example.com'' [exampleEntry, exampleOtherEntry] (''Bearer '' @ examplePlaceholder)"
  "substitutionPermitted ''api.example.com'' [exampleEntry, exampleOtherEntry] examplePlaceholder"
  "substitutionPermitted ''api.example.com'' [exampleEntry, exampleOtherEntry] ''key''"
  by (simp_all add: substitutionPermitted_Cons substitutionPermitted_Nil exampleEntry_def
        exampleOtherEntry_def example_api_matches example_bearer_substituted[simplified]
        example_placeholder_substituted replaceAll_absent example_other_absent)

lemma example_bearer_not_basic: "matchBasicAuth ''Bearer s3cr3t'' = None"
  by (simp add: matchBasicAuth_def toLowerCase_def toLowerChar_def upperLetters_def lowerLetters_def)

lemma example_authorization: "isCredentialHeader ''Authorization''"
  by (simp add: isCredentialHeader_def toLowerCase_def toLowerChar_def upperLetters_def lowerLetters_def)

lemma example_two_headers_permitted:
  "headersPermitted exampleRuntime ''api.example.com'' [exampleEntry, exampleOtherEntry]
     (requestHeaders exampleQueryRequest)"
  by (simp add: headersPermitted_def headerPermitted_def exampleQueryRequest_def
        example_two_permitted[simplified] example_two_bearer[simplified] example_bearer_not_basic)

lemma example_two_headers:
  "substitutedHeaders exampleRuntime [exampleEntry, exampleOtherEntry] (requestHeaders exampleQueryRequest) =
     [(''Authorization'', ''Bearer s3cr3t'')]"
  by (simp add: substitutedHeaders_def substitutedHeaderValue_def exampleQueryRequest_def
        example_two_bearer[simplified] example_bearer_not_basic example_authorization)

lemma example_query_parsed:
  "parseURL exampleRuntime (''https://api.example.com/v1?key='' @ examplePlaceholder) =
     Some \<lparr>urlHostname = ''api.example.com'', urlSearch = ''?key='' @ examplePlaceholder,
        urlSearchParams = [(''key'', examplePlaceholder)],
        urlOrigin = ''https://api.example.com'', urlPathname = ''/v1'', urlHash = []\<rparr>"
  by (simp add: exampleRuntime_def exampleUrls_def examplePlaceholder_def)

lemma example_two_query_permitted:
  "queryPermitted exampleRuntime ''api.example.com'' [exampleEntry, exampleOtherEntry]
     (requestUrl exampleQueryRequest)"
  by (simp add: queryPermitted_def exampleQueryRequest_def example_query_parsed[simplified]
        paramsPermitted_def example_two_permitted)

lemma example_form_encoded: "formUrlEncode ''key'' = ''key''" "formUrlEncode ''s3cr3t'' = ''s3cr3t''"
  by (simp_all add: formUrlEncode_def formUrlEncodeChar_def formUnreserved_def)

lemma example_two_url:
  "rewrittenUrl exampleRuntime [exampleEntry, exampleOtherEntry] (requestUrl exampleQueryRequest) =
     ''https://api.example.com/v1?key=s3cr3t''"
proof -
  have p: "substitutedParams [exampleEntry, exampleOtherEntry] [(''key'', examplePlaceholder)] =
      [(''key'', ''s3cr3t'')]"
    by (simp add: substitutedParams_def example_two_key example_two_placeholder)
  have ne: "examplePlaceholder \<noteq> ''s3cr3t''" by (simp add: examplePlaceholder_def)
  have s: "searchParamsToString exampleRuntime [(''key'', ''s3cr3t'')] = ''key=s3cr3t''"
    by (simp add: exampleRuntime_def example_form_encoded)
  show ?thesis
    by (simp add: rewrittenUrl_def exampleQueryRequest_def example_query_parsed[simplified] p ne s)
       (simp add: exampleRuntime_def)
qed

lemma example_two_not_smuggled:
  "\<not> list_ex (\<lambda>entry. \<not> matchesAnyHost ''api.example.com'' (entryHosts entry) \<and>
                     entryValue entry \<noteq> [] \<and>
                     (secretOccursInHeaders exampleRuntime (requestHeaders exampleQueryRequest) (entryValue entry) \<or>
                      secretOccursInQuery exampleRuntime (requestUrl exampleQueryRequest) (entryValue entry)))
       [exampleEntry, exampleOtherEntry]"
proof -
  have b: "matchBasicAuth (''Bearer '' @ examplePlaceholder) = None"
    by (simp add: matchBasicAuth_def toLowerCase_def toLowerChar_def upperLetters_def
          lowerLetters_def examplePlaceholder_def)
  have h: "\<not> secretOccursInHeaders exampleRuntime (requestHeaders exampleQueryRequest) ''p4ss''"
    by (simp add: secretOccursInHeaders_def exampleQueryRequest_def b[simplified])
       (simp add: sublist_code examplePlaceholder_def)
  have q: "\<not> secretOccursInQuery exampleRuntime (requestUrl exampleQueryRequest) ''p4ss''"
    by (simp add: secretOccursInQuery_def exampleQueryRequest_def example_query_parsed[simplified])
       (simp add: sublist_code examplePlaceholder_def)
  show ?thesis
    by (simp add: exampleEntry_def exampleOtherEntry_def example_api_matches h q)
qed

lemma example_accept_permitted:
  "headersPermitted exampleRuntime ''evil.test'' [exampleEntry] (requestHeaders exampleQueryLeakRequest)"
  by (simp add: headersPermitted_def headerPermitted_def exampleQueryLeakRequest_def
        substitutionPermitted_Cons substitutionPermitted_Nil includesStr_def sublist_code
        exampleEntry_def examplePlaceholder_def isCredentialHeader_def
        toLowerCase_def toLowerChar_def upperLetters_def lowerLetters_def)

lemma example_accept_substituted:
  "substitutedHeaders exampleRuntime [exampleEntry] (requestHeaders exampleQueryLeakRequest) =
     requestHeaders exampleQueryLeakRequest"
  by (simp add: substitutedHeaders_def substitutedHeaderValue_def exampleQueryLeakRequest_def
        substituteAll_Cons substituteAll_Nil replaceAll_absent includesStr_def sublist_code
        exampleEntry_def examplePlaceholder_def isCredentialHeader_def
        toLowerCase_def toLowerChar_def upperLetters_def lowerLetters_def)


subsection \<open>Internal ranges are rejected\<close>

text \<open>
  Claim C3. \<^verbatim>\<open>blockInternalRanges\<close> is true when the option is absent, and then
  \<^verbatim>\<open>isIpAllowed\<close> returns false for an internal address. An IPv4 address
  \<^verbatim>\<open>a.b.c.d\<close> is internal exactly when it lies in one of 0.0.0.0/8, 10/8, 127/8,
  169.254/16, 172.16/12, 192.168/16, 100.64/10 and 255/8. An IPv6 address whose eight
  hextets \<^verbatim>\<open>parseIPv6Hextets\<close> gives is internal exactly when it is \<^verbatim>\<open>::\<close> or
  \<^verbatim>\<open>::1\<close>, lies in fc00::/7 or fe80::/10, or \<^verbatim>\<open>extractIPv4Mapped\<close> gives an
  IPv4 address of these ranges. For an address that is not internal the hook answers as
  it does with the block switched off.
\<close>

theorem internal_ranges_rejected:
  "(optBlockInternalRanges opts = None \<longrightarrow> blockInternalRanges (createHttpHooks rng opts)) \<and>
   (blockInternalRanges hooks \<and> isInternalAddress rt (infoIp info) \<longrightarrow>
      isIpAllowed rt hooks info = (False, [])) \<and>
   (\<not> isInternalAddress rt (infoIp info) \<longrightarrow>
      isIpAllowed rt hooks info = isIpAllowed rt (hooks\<lparr>blockInternalRanges := False\<rparr>) info) \<and>
   (a < 256 \<and> b < 256 \<and> c < 256 \<and> d < 256 \<longrightarrow>
      netIsIP rt (dottedQuad a b c d) = 4 \<and>
      isInternalAddress rt (dottedQuad a b c d) = inBlockedIPv4Range a b c d) \<and>
   (netIsIP rt ip = 6 \<and> parseIPv6Hextets rt ip = Some hextets \<and> length hextets = 8 \<and>
    (\<forall>h \<in> set hextets. h < 65536) \<longrightarrow>
      isInternalAddress rt ip =
        (inBlockedIPv6Range hextets \<or>
         (\<exists>mapped. extractIPv4Mapped rt hextets = Some mapped \<and> mapped \<noteq> [] \<and>
                   isPrivateIPv4 mapped))) \<and>
   (b < 256 \<and> c < 256 \<and> d < 256 \<longrightarrow>
      isPrivateIPv4 (dottedQuad a b c d) = inBlockedIPv4Range a b c d) \<and>
   (netIsIP rt ip = 0 \<longrightarrow> \<not> isInternalAddress rt ip)"
proof -
  have 1: "optBlockInternalRanges opts = None \<longrightarrow> blockInternalRanges (createHttpHooks rng opts)"
    by (simp add: createHttpHooks_def Let_def split: prod.splits)
  have 2: "blockInternalRanges hooks \<and> isInternalAddress rt (infoIp info) \<longrightarrow>
      isIpAllowed rt hooks info = (False, [])"
    by (simp add: isIpAllowed_def)
  have 3: "\<not> isInternalAddress rt (infoIp info) \<longrightarrow>
      isIpAllowed rt hooks info = isIpAllowed rt (hooks\<lparr>blockInternalRanges := False\<rparr>) info"
    by (simp add: isIpAllowed_def)
  have 4: "a < 256 \<and> b < 256 \<and> c < 256 \<and> d < 256 \<longrightarrow>
      netIsIP rt (dottedQuad a b c d) = 4 \<and>
      isInternalAddress rt (dottedQuad a b c d) = inBlockedIPv4Range a b c d"
    by (simp add: netIsIP_def isInternalAddress_def isIPv4_dottedQuad isPrivateIPv4_dottedQuad)
  have 5: "netIsIP rt ip = 6 \<and> parseIPv6Hextets rt ip = Some hextets \<and> length hextets = 8 \<and>
    (\<forall>h \<in> set hextets. h < 65536) \<longrightarrow>
      isInternalAddress rt ip =
        (inBlockedIPv6Range hextets \<or>
         (\<exists>mapped. extractIPv4Mapped rt hextets = Some mapped \<and> mapped \<noteq> [] \<and>
                   isPrivateIPv4 mapped))"
    using isPrivateIPv6_hextets[of rt ip hextets] by (simp add: isInternalAddress_def)
  have 6: "b < 256 \<and> c < 256 \<and> d < 256 \<longrightarrow>
      isPrivateIPv4 (dottedQuad a b c d) = inBlockedIPv4Range a b c d"
    by (simp add: isPrivateIPv4_dottedQuad)
  have 7: "netIsIP rt ip = 0 \<longrightarrow> \<not> isInternalAddress rt ip"
    by (simp add: isInternalAddress_def)
  from 1 2 3 4 5 6 7 show ?thesis by (intro conjI)
qed

theorem internal_ranges_rejected_witness:
  "isIpAllowed exampleRuntime (createHttpHooks exampleRng exampleOptions)
     \<lparr>infoHostname = ''api.example.com'', infoIp = ''10.0.0.1''\<rparr> = (False, []) \<and>
   isInternalAddress exampleRuntime ''fe80::1'' \<and>
   isInternalAddress exampleRuntime ''::ffff:10.0.0.1'' \<and>
   \<not> isInternalAddress exampleRuntime ''2001:db8::1'' \<and>
   \<not> isInternalAddress exampleRuntime ''172.32.0.1''"
proof -
  let ?hooks = "createHttpHooks exampleRng exampleOptions"
  let ?info = "\<lparr>infoHostname = ''api.example.com'', infoIp = ''10.0.0.1''\<rparr>"
  have q1: "dottedQuad 10 0 0 1 = ''10.0.0.1''"
    by (simp add: dottedQuad_def decimalText.simps digitChar_def)
  have q2: "dottedQuad 172 32 0 1 = ''172.32.0.1''"
    by (simp add: dottedQuad_def decimalText.simps digitChar_def)
  have r1: "inBlockedIPv4Range 10 0 0 1"
    by (simp add: inBlockedIPv4Range_def blockedIPv4Ranges_def inPrefix_def ipv4Number_def)
  have r2: "\<not> inBlockedIPv4Range 172 32 0 1"
    by (simp add: inBlockedIPv4Range_def blockedIPv4Ranges_def inPrefix_def ipv4Number_def)
  have o: "optBlockInternalRanges exampleOptions = None" by (simp add: exampleOptions_def)
  note T1 = internal_ranges_rejected[where opts = exampleOptions and rng = exampleRng
      and hooks = ?hooks and rt = exampleRuntime and info = ?info
      and a = 10 and b = 0 and c = 0 and d = 1
      and ip = "''fe80::1''" and hextets = "[0xfe80, 0, 0, 0, 0, 0, 0, 1]"]
  have b: "blockInternalRanges ?hooks" using T1 o by blast
  have i1: "isInternalAddress exampleRuntime ''10.0.0.1''" using T1 q1 r1 by simp
  have w1: "isIpAllowed exampleRuntime ?hooks ?info = (False, [])" using T1 b i1 by simp
  have n6: "netIsIP exampleRuntime ''fe80::1'' = 6"
    by (simp add: netIsIP_def isIPv4_def split_def exampleRuntime_def exampleHextets_def)
  have p6: "parseIPv6Hextets exampleRuntime ''fe80::1'' = Some [0xfe80, 0, 0, 0, 0, 0, 0, 1]"
    by (simp add: exampleRuntime_def exampleHextets_def)
  have r6: "inBlockedIPv6Range [0xfe80, 0, 0, 0, 0, 0, 0, 1]"
    by (simp add: inBlockedIPv6Range_def inPrefix_def)
  have w2: "isInternalAddress exampleRuntime ''fe80::1''" using T1 n6 p6 r6 by simp
  note T2 = internal_ranges_rejected[where rt = exampleRuntime
      and a = 172 and b = 32 and c = 0 and d = 1
      and ip = "''::ffff:10.0.0.1''" and hextets = "[0, 0, 0, 0, 0, 0xffff, 0x0a00, 1]"]
  have nm: "netIsIP exampleRuntime ''::ffff:10.0.0.1'' = 6"
    by (simp add: netIsIP_def isIPv4_def split_def exampleRuntime_def exampleHextets_def isIPv4Segment_def isDigit_def)
  have pm: "parseIPv6Hextets exampleRuntime ''::ffff:10.0.0.1'' = Some [0, 0, 0, 0, 0, 0xffff, 0x0a00, 1]"
    by (simp add: exampleRuntime_def exampleHextets_def)
  have em: "extractIPv4Mapped exampleRuntime [0, 0, 0, 0, 0, 0xffff, 0x0a00, 1] = Some (dottedQuad 10 0 0 1)"
    by (simp add: exampleRuntime_def)
  have m1: "isPrivateIPv4 (dottedQuad 10 0 0 1)" using T1 r1 by simp
  have m2: "dottedQuad 10 0 0 1 \<noteq> []" unfolding q1 by simp
  have w3: "isInternalAddress exampleRuntime ''::ffff:10.0.0.1''"
    using T2 nm pm em m1 m2 by simp
  have w5: "\<not> isInternalAddress exampleRuntime ''172.32.0.1''" using T2 q2 r2 by simp
  note T3 = internal_ranges_rejected[where rt = exampleRuntime
      and ip = "''2001:db8::1''" and hextets = "[0x2001, 0xdb8, 0, 0, 0, 0, 0, 1]"]
  have n3: "netIsIP exampleRuntime ''2001:db8::1'' = 6"
    by (simp add: netIsIP_def isIPv4_def split_def exampleRuntime_def exampleHextets_def)
  have p3: "parseIPv6Hextets exampleRuntime ''2001:db8::1'' = Some [0x2001, 0xdb8, 0, 0, 0, 0, 0, 1]"
    by (simp add: exampleRuntime_def exampleHextets_def)
  have r3: "\<not> inBlockedIPv6Range [0x2001, 0xdb8, 0, 0, 0, 0, 0, 1]"
    by (simp add: inBlockedIPv6Range_def inPrefix_def)
  have e3: "extractIPv4Mapped exampleRuntime [0x2001, 0xdb8, 0, 0, 0, 0, 0, 1] = None"
    by (simp add: exampleRuntime_def)
  have w4: "\<not> isInternalAddress exampleRuntime ''2001:db8::1''"
    using T3 n3 p3 r3 e3 by simp
  from w1 w2 w3 w4 w5 show ?thesis by (intro conjI)
qed

subsection \<open>The caller's hook narrows, never widens\<close>

text \<open>
  Claim C5. When a built-in check denies (an internal address while these are blocked,
  or a host name that matches none of the listed hosts), \<^verbatim>\<open>isIpAllowed\<close> returns
  false whatever the caller's hook would say, and does not call it. When the built-in
  checks pass, the hook is called once, with the same argument, and its answer is the
  result. So what the hooks allow with a caller's hook they allow without it.
\<close>

theorem caller_hook_only_narrows:
  "(builtInDenies rt hooks info \<longrightarrow> isIpAllowed rt hooks info = (False, [])) \<and>
   (\<not> builtInDenies rt hooks info \<longrightarrow>
      isIpAllowed rt hooks info =
        (case optIsIpAllowed (options hooks) of
           Some hook \<Rightarrow> (hook info, [info])
         | None \<Rightarrow> (True, []))) \<and>
   (fst (isIpAllowed rt hooks info) \<longrightarrow> fst (isIpAllowed rt (withoutIpHook hooks) info)) \<and>
   (fst (isIpAllowed rt (withoutIpHook hooks) info) = (\<not> builtInDenies rt hooks info))"
  by (auto simp: builtInDenies_def isIpAllowed_def withoutIpHook_def split: option.splits)

theorem caller_hook_only_narrows_witness:
  "isIpAllowed exampleRuntime
     (createHttpHooks exampleRng (exampleOptions\<lparr>optIsIpAllowed := Some (\<lambda>info. True)\<rparr>))
     \<lparr>infoHostname = ''evil.test'', infoIp = ''93.184.216.34''\<rparr> = (False, []) \<and>
   isIpAllowed exampleRuntime
     (createHttpHooks exampleRng (exampleOptions\<lparr>optIsIpAllowed := Some (\<lambda>info. False)\<rparr>))
     \<lparr>infoHostname = ''API.example.com'', infoIp = ''93.184.216.34''\<rparr> =
       (False, [\<lparr>infoHostname = ''API.example.com'', infoIp = ''93.184.216.34''\<rparr>])"
proof -
  let ?yes = "createHttpHooks exampleRng (exampleOptions\<lparr>optIsIpAllowed := Some (\<lambda>info. True)\<rparr>)"
  let ?no = "createHttpHooks exampleRng (exampleOptions\<lparr>optIsIpAllowed := Some (\<lambda>info. False)\<rparr>)"
  let ?evil = "\<lparr>infoHostname = ''evil.test'', infoIp = ''93.184.216.34''\<rparr>"
  let ?good = "\<lparr>infoHostname = ''API.example.com'', infoIp = ''93.184.216.34''\<rparr>"
  have d1: "builtInDenies exampleRuntime ?yes ?evil"
    by (simp add: builtInDenies_def example_allowedHosts example_host_differs)
  have d2: "\<not> builtInDenies exampleRuntime ?no ?good"
    by (simp add: builtInDenies_def example_allowedHosts example_host_matches example_public_address)
  have o: "optIsIpAllowed (options ?no) = Some (\<lambda>info. False)"
    by (simp add: createHttpHooks_def split: prod.splits)
  from caller_hook_only_narrows[of exampleRuntime ?yes ?evil] d1
  have w1: "isIpAllowed exampleRuntime ?yes ?evil = (False, [])" by blast
  from caller_hook_only_narrows[of exampleRuntime ?no ?good] d2
  have "isIpAllowed exampleRuntime ?no ?good =
        (case optIsIpAllowed (options ?no) of Some hook \<Rightarrow> (hook ?good, [?good]) | None \<Rightarrow> (True, []))"
    by blast
  then have w2: "isIpAllowed exampleRuntime ?no ?good = (False, [?good])"
    by (simp only: o option.case)
  from w1 w2 show ?thesis by (intro conjI)
qed

subsection \<open>The resolved list of allowed hosts\<close>

text \<open>
  Claim C9, amended. The list \<^verbatim>\<open>allowedHosts\<close> that \<^verbatim>\<open>createHttpHooks\<close> returns
  holds the caller's patterns and then those of every secret, trimmed and in lower case,
  without the patterns that are empty once trimmed, each kept where it first occurs and
  none twice. So a host name that matches a pattern of a secret matches the list, and
  \<^verbatim>\<open>isIpAllowed\<close> answers for it as it does with no list of hosts at all.
\<close>

theorem allowedHosts_union_of_patterns:
  "allowedHosts (createHttpHooks rng opts) =
     firstOccurrences (filter (\<lambda>h. h \<noteq> [])
       (map normalizeHostnamePattern (optionHostPatterns opts))) \<and>
   distinct (allowedHosts (createHttpHooks rng opts)) \<and>
   (entry \<in> set (secretEntries (createHttpHooks rng opts)) \<and>
    matchesAnyHost hostname (entryHosts entry) \<longrightarrow>
      matchesAnyHost hostname (allowedHosts (createHttpHooks rng opts)) \<and>
      isIpAllowed rt (createHttpHooks rng opts) \<lparr>infoHostname = hostname, infoIp = ip\<rparr> =
        isIpAllowed rt ((createHttpHooks rng opts)\<lparr>allowedHosts := []\<rparr>)
          \<lparr>infoHostname = hostname, infoIp = ip\<rparr>)"
proof -
  have 1: "allowedHosts (createHttpHooks rng opts) =
     firstOccurrences (filter (\<lambda>h. h \<noteq> [])
       (map normalizeHostnamePattern (optionHostPatterns opts)))"
    by (rule createHttpHooks_allowedHosts)
  have 2: "distinct (allowedHosts (createHttpHooks rng opts))"
    unfolding 1 by (rule distinct_firstOccurrences)
  have 3: "entry \<in> set (secretEntries (createHttpHooks rng opts)) \<and>
    matchesAnyHost hostname (entryHosts entry) \<longrightarrow>
      matchesAnyHost hostname (allowedHosts (createHttpHooks rng opts)) \<and>
      isIpAllowed rt (createHttpHooks rng opts) \<lparr>infoHostname = hostname, infoIp = ip\<rparr> =
        isIpAllowed rt ((createHttpHooks rng opts)\<lparr>allowedHosts := []\<rparr>)
          \<lparr>infoHostname = hostname, infoIp = ip\<rparr>"
    using secret_host_allowed[of entry rng opts hostname] by (auto simp: isIpAllowed_def)
  from 1 2 3 show ?thesis by (intro conjI)
qed

theorem allowedHosts_union_of_patterns_witness:
  "exampleEntry \<in> set (secretEntries (createHttpHooks exampleRng exampleOptions)) \<and>
   matchesAnyHost ''API.example.com'' (entryHosts exampleEntry) \<and>
   optAllowedHosts exampleOptions = None \<and>
   allowedHosts (createHttpHooks exampleRng exampleOptions) = [''api.example.com''] \<and>
   matchesAnyHost ''API.example.com'' (allowedHosts (createHttpHooks exampleRng exampleOptions))"
proof -
  have e: "exampleEntry \<in> set (secretEntries (createHttpHooks exampleRng exampleOptions))"
    by (simp add: example_entries)
  have m: "matchesAnyHost ''API.example.com'' (entryHosts exampleEntry)"
    by (simp add: exampleEntry_def example_host_matches)
  have o: "optAllowedHosts exampleOptions = None" by (simp add: exampleOptions_def)
  have a: "allowedHosts (createHttpHooks exampleRng exampleOptions) = [''api.example.com'']"
    using example_allowedHosts[of "None"] by (simp add: exampleOptions_def)
  from allowedHosts_union_of_patterns[of exampleRng exampleOptions exampleEntry "''API.example.com''"] e m
  have "matchesAnyHost ''API.example.com'' (allowedHosts (createHttpHooks exampleRng exampleOptions))"
    by blast
  with e m o a show ?thesis by (intro conjI)
qed

theorem allowedHosts_union_counterexample:
  "allowedHosts (createHttpHooks exampleRng
      \<lparr>optAllowedHosts = Some ['' ''], optSecrets = None, optReplaceSecretsInQuery = None,
       optBlockInternalRanges = None, optIsIpAllowed = None\<rparr>) = [] \<and>
   trimmedLowercasedUnion
      \<lparr>optAllowedHosts = Some ['' ''], optSecrets = None, optReplaceSecretsInQuery = None,
       optBlockInternalRanges = None, optIsIpAllowed = None\<rparr> = ['''']"
  by (simp add: createHttpHooks_def uniqueHosts_def trimmedLowercasedUnion_def optionHostPatterns_def
        normalizeHostnamePattern_def trim_def isWhiteSpace_def toLowerCase_def Let_def)

subsection \<open>The environment holds placeholders\<close>

text \<open>
  Claim C7. The \<^verbatim>\<open>env\<close> that \<^verbatim>\<open>createHttpHooks\<close> returns is defined on the
  names of the secrets other than \<^verbatim>\<open>__proto__\<close>, and on nothing else: the assignment
  \<^verbatim>\<open>env[name] = placeholder\<close> leaves the object as it is for that name, although the
  entry of the secret is made all the same. Every other name is mapped to
  \<^verbatim>\<open>GONDOLIN_SECRET_\<close> followed by the 48 hexadecimal digits of 24 bytes drawn from
  the random generator, the bytes of the i-th draw for the i-th secret, and the entry of
  the secret holds the same placeholder. A value in \<^verbatim>\<open>env\<close> is of the form of a
  placeholder, so it is not the real value of a secret whose value is not of that form.
\<close>

theorem env_maps_names_to_placeholders:
  assumes "secrets = (case optSecrets opts of Some s \<Rightarrow> s | None \<Rightarrow> [])"
  shows
  "dom (env (createHttpHooks rng opts)) = fst ` set secrets - {''__proto__''} \<and>
   env (createHttpHooks rng opts) ''__proto__'' = None \<and>
   map entryName (secretEntries (createHttpHooks rng opts)) = map fst secrets \<and>
   (\<forall>name \<in> fst ` set secrets. name \<noteq> ''__proto__'' \<longrightarrow>
      (\<exists>i < length secrets.
         env (createHttpHooks rng opts) name =
           Some (placeholderPrefix @ toHex (randomBytes rng (24 * i) 24)))) \<and>
   (distinct (map fst secrets) \<longrightarrow>
      (\<forall>i < length secrets.
         (fst (secrets ! i) \<noteq> ''__proto__'' \<longrightarrow>
            env (createHttpHooks rng opts) (fst (secrets ! i)) =
              Some (placeholderPrefix @ toHex (randomBytes rng (24 * i) 24))) \<and>
         entryPlaceholder (secretEntries (createHttpHooks rng opts) ! i) =
           placeholderPrefix @ toHex (randomBytes rng (24 * i) 24))) \<and>
   (\<forall>pos. length (randomBytes rng pos 24) = 24 \<and>
      length (toHex (randomBytes rng pos 24)) = 48 \<and>
      list_all (\<lambda>c. c \<in> set hexDigits) (toHex (randomBytes rng pos 24)) \<and>
      isPlaceholder (placeholderPrefix @ toHex (randomBytes rng pos 24))) \<and>
   (\<forall>(name, secret) \<in> set secrets.
      \<not> isPlaceholder (secretValue secret) \<longrightarrow>
        env (createHttpHooks rng opts) name \<noteq> Some (secretValue secret))"
proof -
  let ?env = "env (createHttpHooks rng opts)"
  have envdef: "?env = fst (secretsLoop rng 0 secrets Map.empty [])"
    unfolding assms by (rule createHttpHooks_secretsLoop)
  have 1: "dom ?env = fst ` set secrets - {''__proto__''}"
    unfolding envdef by (simp add: secretsLoop_dom)
  have 0: "?env ''__proto__'' = None"
    unfolding envdef by (simp add: secretsLoop_env_proto)
  have 6: "map entryName (secretEntries (createHttpHooks rng opts)) = map fst secrets"
  proof -
    have f: "(entryName \<circ>
          (\<lambda>(i, name, secret).
              \<lparr>entryName = name,
                 entryPlaceholder = placeholderPrefix @ toHex (randomBytes rng (24 * i) 24),
                 entryValue = secretValue secret,
                 entryHosts = map normalizeHostnamePattern (secretHosts secret)\<rparr>)) =
          (\<lambda>(i, x). fst x)"
      by (auto simp: fun_eq_iff)
    show ?thesis
      unfolding createHttpHooks_entries assms[symmetric]
      by (simp add: f map_zip_ignore)
  qed
  have 2: "\<forall>name \<in> fst ` set secrets. name \<noteq> ''__proto__'' \<longrightarrow>
      (\<exists>i < length secrets.
         ?env name = Some (placeholderPrefix @ toHex (randomBytes rng (24 * i) 24)))"
    unfolding envdef using secretsLoop_env_member[of _ secrets rng 0 Map.empty "[]"] by simp
  have 3: "distinct (map fst secrets) \<longrightarrow>
      (\<forall>i < length secrets.
         (fst (secrets ! i) \<noteq> ''__proto__'' \<longrightarrow>
            ?env (fst (secrets ! i)) =
              Some (placeholderPrefix @ toHex (randomBytes rng (24 * i) 24))) \<and>
         entryPlaceholder (secretEntries (createHttpHooks rng opts) ! i) =
           placeholderPrefix @ toHex (randomBytes rng (24 * i) 24))"
  proof (intro impI allI)
    fix i
    assume d: "distinct (map fst secrets)" and i: "i < length secrets"
    have a: "fst (secrets ! i) \<noteq> ''__proto__'' \<longrightarrow> ?env (fst (secrets ! i)) =
           Some (placeholderPrefix @ toHex (randomBytes rng (24 * i) 24))"
      unfolding envdef using secretsLoop_env_distinct[OF d i, of rng 0 Map.empty "[]"] by simp
    have b: "secretEntries (createHttpHooks rng opts) ! i =
          (\<lambda>(i, name, secret).
            \<lparr>entryName = name,
             entryPlaceholder = placeholderPrefix @ toHex (randomBytes rng (24 * i) 24),
             entryValue = secretValue secret,
             entryHosts = map normalizeHostnamePattern (secretHosts secret)\<rparr>)
          (i, secrets ! i)"
      unfolding createHttpHooks_entries assms[symmetric] using i by simp
    show "(fst (secrets ! i) \<noteq> ''__proto__'' \<longrightarrow>
            ?env (fst (secrets ! i)) =
              Some (placeholderPrefix @ toHex (randomBytes rng (24 * i) 24))) \<and>
         entryPlaceholder (secretEntries (createHttpHooks rng opts) ! i) =
           placeholderPrefix @ toHex (randomBytes rng (24 * i) 24)"
      using a by (simp add: b case_prod_beta)
  qed
  have 4: "\<forall>pos. length (randomBytes rng pos 24) = 24 \<and>
      length (toHex (randomBytes rng pos 24)) = 48 \<and>
      list_all (\<lambda>c. c \<in> set hexDigits) (toHex (randomBytes rng pos 24)) \<and>
      isPlaceholder (placeholderPrefix @ toHex (randomBytes rng pos 24))"
    by (simp add: length_toHex toHex_digits isPlaceholder_generated) (simp add: randomBytes_def)
  have 5: "\<forall>(name, secret) \<in> set secrets.
      \<not> isPlaceholder (secretValue secret) \<longrightarrow> ?env name \<noteq> Some (secretValue secret)"
  proof (intro ballI)
    fix x
    assume x: "x \<in> set secrets"
    obtain name secret where ns: "x = (name, secret)" by (cases x)
    have "\<not> isPlaceholder (secretValue secret) \<longrightarrow> ?env name \<noteq> Some (secretValue secret)"
    proof (cases "name = ''__proto__''")
      case True
      then show ?thesis using 0 by simp
    next
      case False
      have "name \<in> fst ` set secrets" using x ns by force
      with 2 False obtain i where
        "?env name = Some (placeholderPrefix @ toHex (randomBytes rng (24 * i) 24))"
        by blast
      then show ?thesis using isPlaceholder_generated[of rng "24 * i"] by auto
    qed
    then show "case x of (name, secret) \<Rightarrow>
      \<not> isPlaceholder (secretValue secret) \<longrightarrow> ?env name \<noteq> Some (secretValue secret)"
      by (simp add: ns)
  qed
  from 1 0 6 2 3 4 5 show ?thesis by (intro conjI)
qed

theorem env_maps_names_to_placeholders_witness:
  "[(''TOKEN'', \<lparr>secretHosts = ['' API.example.com ''], secretValue = ''s3cr3t''\<rparr>)] =
     (case optSecrets exampleOptions of Some s \<Rightarrow> s | None \<Rightarrow> []) \<and>
   env (createHttpHooks exampleRng exampleOptions) ''TOKEN'' = Some examplePlaceholder \<and>
   \<not> isPlaceholder ''s3cr3t'' \<and>
   env (createHttpHooks exampleRng exampleOptions) ''TOKEN'' \<noteq> Some ''s3cr3t''"
proof -
  let ?secrets = "[(''TOKEN'', \<lparr>secretHosts = ['' API.example.com ''], secretValue = ''s3cr3t''\<rparr>)]"
  let ?env = "env (createHttpHooks exampleRng exampleOptions)"
  have s: "?secrets = (case optSecrets exampleOptions of Some s \<Rightarrow> s | None \<Rightarrow> [])"
    by (simp add: exampleOptions_def)
  note T = env_maps_names_to_placeholders[OF s, of exampleRng]
  have d: "distinct (map fst ?secrets)" by simp
  from T have T3: "distinct (map fst ?secrets) \<longrightarrow> (\<forall>i < length ?secrets.
      (fst (?secrets ! i) \<noteq> ''__proto__'' \<longrightarrow>
         ?env (fst (?secrets ! i)) = Some (placeholderPrefix @ toHex (randomBytes exampleRng (24 * i) 24))) \<and>
      entryPlaceholder (secretEntries (createHttpHooks exampleRng exampleOptions) ! i) =
        placeholderPrefix @ toHex (randomBytes exampleRng (24 * i) 24))"
    by (elim conjE)
  from T have T5: "\<forall>(name, secret) \<in> set ?secrets.
      \<not> isPlaceholder (secretValue secret) \<longrightarrow> ?env name \<noteq> Some (secretValue secret)"
    by (elim conjE)
  have z: "(0::nat) < length ?secrets" by simp
  have p: "fst (?secrets ! 0) \<noteq> ''__proto__''" by simp
  from T3 d z p have "?env (fst (?secrets ! 0)) =
        Some (placeholderPrefix @ toHex (randomBytes exampleRng (24 * 0) 24))"
    by blast
  then have e: "?env ''TOKEN'' = Some examplePlaceholder"
    by (simp add: example_placeholder)
  have n: "\<not> isPlaceholder ''s3cr3t''" by (simp add: isPlaceholder_def)
  have "?env ''TOKEN'' \<noteq> Some ''s3cr3t''"
    using T5 n by simp
  with s e n show ?thesis by (intro conjI)
qed

text \<open>The secret named \<^verbatim>\<open>__proto__\<close> gets its entry and its placeholder, and
  \<^verbatim>\<open>env\<close> stays empty.\<close>

theorem env_without_proto_name:
  "env (createHttpHooks exampleRng exampleProtoOptions) = Map.empty \<and>
   map entryName (secretEntries (createHttpHooks exampleRng exampleProtoOptions)) = [''__proto__''] \<and>
   map entryPlaceholder (secretEntries (createHttpHooks exampleRng exampleProtoOptions)) =
     [examplePlaceholder]"
  unfolding createHttpHooks_secretsLoop
  by (simp add: exampleProtoOptions_def Let_def example_placeholder assignProperty_def)

subsection \<open>The allowlist defence for secret values\<close>

text \<open>
  Claim C1, amended. \<^verbatim>\<open>assertSecretValuesAllowedForHost\<close> raises nothing exactly
  when no secret is smuggled: no entry whose hosts do not match the target host name
  and whose value is not empty has that value inside a header value, inside the decoded
  credentials of a \<^verbatim>\<open>Basic\<close> value of an \<^verbatim>\<open>Authorization\<close> or
  \<^verbatim>\<open>Proxy-Authorization\<close> header or, when the query is checked, inside the name or
  the value of a query parameter. When a secret is smuggled the check fails with
  \<^verbatim>\<open>HttpRequestBlockedError\<close>, naming such an entry, and so does
  \<^verbatim>\<open>applySecretsToRequest\<close>. A secret whose value is empty never fails the check.
\<close>

theorem secret_values_blocked_for_other_hosts:
  "((assertSecretValuesAllowedForHost rt request hostname entries checkQuery = Inr ()) =
      (\<not> list_ex (secretSmuggled rt request hostname checkQuery) entries)) \<and>
   (list_ex (secretSmuggled rt request hostname checkQuery) entries \<longrightarrow>
      (\<exists>entry \<in> set entries. secretSmuggled rt request hostname checkQuery entry \<and>
         assertSecretValuesAllowedForHost rt request hostname entries checkQuery =
           Inl (HttpRequestBlockedError (blockedMessage entry hostname)))) \<and>
   (list_ex (secretSmuggled rt request (getHostname rt request) (replaceSecretsInQuery hooks))
      (secretEntries hooks) \<longrightarrow>
      (\<exists>message. applySecretsToRequest rt hooks request = Inl (HttpRequestBlockedError message)))"
proof -
  let ?r = "assertSecretValuesAllowedForHost rt request hostname entries checkQuery"
  have 1: "(?r = Inr ()) = (\<not> list_ex (secretSmuggled rt request hostname checkQuery) entries)"
    by (simp add: assertSecretValuesAllowedForHost_loop assertSecretValuesLoop_ok)
  have 2: "list_ex (secretSmuggled rt request hostname checkQuery) entries \<longrightarrow>
      (\<exists>entry \<in> set entries. secretSmuggled rt request hostname checkQuery entry \<and>
         ?r = Inl (HttpRequestBlockedError (blockedMessage entry hostname)))"
  proof
    assume "list_ex (secretSmuggled rt request hostname checkQuery) entries"
    with 1 have "?r \<noteq> Inr ()" by simp
    then obtain e where e: "?r = Inl e" using sum_unit_cases[of ?r] by blast
    then have "assertSecretValuesLoop rt request hostname checkQuery entries = Inl e"
      by (simp add: assertSecretValuesAllowedForHost_loop)
    from assertSecretValuesLoop_blocked[OF this] e
    show "\<exists>entry \<in> set entries. secretSmuggled rt request hostname checkQuery entry \<and>
         ?r = Inl (HttpRequestBlockedError (blockedMessage entry hostname))"
      by auto
  qed
  have 3: "list_ex (secretSmuggled rt request (getHostname rt request) (replaceSecretsInQuery hooks))
      (secretEntries hooks) \<longrightarrow>
      (\<exists>message. applySecretsToRequest rt hooks request = Inl (HttpRequestBlockedError message))"
  proof
    let ?h = "getHostname rt request"
    let ?a = "assertSecretValuesAllowedForHost rt request ?h (secretEntries hooks) (replaceSecretsInQuery hooks)"
    assume "list_ex (secretSmuggled rt request ?h (replaceSecretsInQuery hooks)) (secretEntries hooks)"
    then have "?a \<noteq> Inr ()"
      by (simp add: assertSecretValuesAllowedForHost_loop assertSecretValuesLoop_ok)
    then obtain e where e: "?a = Inl e" using sum_unit_cases[of ?a] by blast
    obtain message where "e = HttpRequestBlockedError message" by (cases e)
    with e have "applySecretsToRequest rt hooks request = Inl (HttpRequestBlockedError message)"
      by (simp add: applySecretsToRequest_def Let_def)
    then show "\<exists>message. applySecretsToRequest rt hooks request = Inl (HttpRequestBlockedError message)"
      by blast
  qed
  from 1 2 3 show ?thesis by (intro conjI)
qed

theorem secret_values_blocked_for_other_hosts_witness:
  "list_ex (secretSmuggled exampleRuntime exampleLeakRequest ''evil.test'' False) [exampleEntry] \<and>
   assertSecretValuesAllowedForHost exampleRuntime exampleLeakRequest ''evil.test'' [exampleEntry] False =
     Inl (HttpRequestBlockedError ''secret TOKEN not allowed for host: evil.test'') \<and>
   assertSecretValuesAllowedForHost exampleRuntime exampleCleanRequest ''evil.test'' [exampleEntry] False =
     Inr ()"
proof -
  have s: "list_ex (secretSmuggled exampleRuntime exampleLeakRequest ''evil.test'' False) [exampleEntry]"
    by (simp add: example_leak_smuggled)
  have n: "\<not> list_ex (secretSmuggled exampleRuntime exampleCleanRequest ''evil.test'' False) [exampleEntry]"
    by (simp add: example_clean_not_smuggled)
  have m: "blockedMessage exampleEntry ''evil.test'' = ''secret TOKEN not allowed for host: evil.test''"
    by (simp add: blockedMessage_def exampleEntry_def)
  from secret_values_blocked_for_other_hosts[of exampleRuntime exampleLeakRequest "''evil.test''"
      "[exampleEntry]" False] s
  have "\<exists>entry \<in> set [exampleEntry].
      assertSecretValuesAllowedForHost exampleRuntime exampleLeakRequest ''evil.test'' [exampleEntry] False =
        Inl (HttpRequestBlockedError (blockedMessage entry ''evil.test''))"
    by blast
  then have a: "assertSecretValuesAllowedForHost exampleRuntime exampleLeakRequest ''evil.test''
      [exampleEntry] False = Inl (HttpRequestBlockedError ''secret TOKEN not allowed for host: evil.test'')"
    by (simp add: m)
  from secret_values_blocked_for_other_hosts[of exampleRuntime exampleCleanRequest "''evil.test''"
      "[exampleEntry]" False] n
  have b: "assertSecretValuesAllowedForHost exampleRuntime exampleCleanRequest ''evil.test''
      [exampleEntry] False = Inr ()"
    by blast
  from s a b show ?thesis by (intro conjI)
qed

theorem empty_secret_value_counterexample:
  "\<not> matchesAnyHost ''evil.test'' [''api.example.com''] \<and>
   includesStr ''text/plain'' [] \<and>
   assertSecretValuesAllowedForHost exampleRuntime exampleCleanRequest ''evil.test''
     [\<lparr>entryName = ''EMPTY'', entryPlaceholder = examplePlaceholder, entryValue = [],
       entryHosts = [''api.example.com'']\<rparr>] True = Inr ()"
  by (simp add: example_host_differs includesStr_def assertSecretValuesAllowedForHost_def
        requestContainsSecretValueInHeaders_def requestContainsSecretValueInQuery_def)

subsection \<open>The query is scanned and rewritten only on request\<close>

text \<open>
  Claim C6. \<^verbatim>\<open>replaceSecretsInQuery\<close> is false unless the option sets it. While it
  is false, \<^verbatim>\<open>applySecretsToRequest\<close> fails exactly when the value of a secret for
  another host occurs in the headers, or a placeholder in the headers belongs to a secret
  that may not go to the target host, whatever the query holds; otherwise it returns the
  request with the placeholders in its headers replaced and its URL as it came. With the
  flag set it fails also when such a value occurs in the name or the value of a query
  parameter, or a placeholder there belongs to a secret that may not go to the host;
  otherwise the headers are rewritten as before and the URL is serialised anew with the
  placeholders in its parameters replaced. The scan looks at the query only with the
  flag, the substitution in the headers does not depend on it, and the substitution in
  the query returns the URL as it came without the flag.
\<close>

theorem query_scan_follows_flag:
  "(replaceSecretsInQuery (createHttpHooks rng opts) =
      (case optReplaceSecretsInQuery opts of Some flag \<Rightarrow> flag | None \<Rightarrow> False)) \<and>
   (\<not> replaceSecretsInQuery hooks \<longrightarrow>
      (if list_ex (\<lambda>entry. \<not> matchesAnyHost (getHostname rt request) (entryHosts entry) \<and>
                     entryValue entry \<noteq> [] \<and>
                     secretOccursInHeaders rt (requestHeaders request) (entryValue entry))
            (secretEntries hooks) \<or>
          \<not> headersPermitted rt (getHostname rt request) (secretEntries hooks) (requestHeaders request)
       then \<exists>message. applySecretsToRequest rt hooks request = Inl (HttpRequestBlockedError message)
       else applySecretsToRequest rt hooks request =
              Inr (request\<lparr>requestHeaders :=
                     substitutedHeaders rt (secretEntries hooks) (requestHeaders request)\<rparr>))) \<and>
   (replaceSecretsInQuery hooks \<longrightarrow>
      (if list_ex (\<lambda>entry. \<not> matchesAnyHost (getHostname rt request) (entryHosts entry) \<and>
                     entryValue entry \<noteq> [] \<and>
                     (secretOccursInHeaders rt (requestHeaders request) (entryValue entry) \<or>
                      secretOccursInQuery rt (requestUrl request) (entryValue entry)))
            (secretEntries hooks) \<or>
          \<not> headersPermitted rt (getHostname rt request) (secretEntries hooks) (requestHeaders request) \<or>
          \<not> queryPermitted rt (getHostname rt request) (secretEntries hooks) (requestUrl request)
       then \<exists>message. applySecretsToRequest rt hooks request = Inl (HttpRequestBlockedError message)
       else applySecretsToRequest rt hooks request =
              Inr (request\<lparr>requestUrl := rewrittenUrl rt (secretEntries hooks) (requestUrl request),
                           requestHeaders :=
                     substitutedHeaders rt (secretEntries hooks) (requestHeaders request)\<rparr>))) \<and>
   ((assertSecretValuesAllowedForHost rt request hostname entries checkQuery = Inr ()) =
      (\<not> list_ex (\<lambda>entry. \<not> matchesAnyHost hostname (entryHosts entry) \<and> entryValue entry \<noteq> [] \<and>
                    (secretOccursInHeaders rt (requestHeaders request) (entryValue entry) \<or>
                     checkQuery \<and> secretOccursInQuery rt (requestUrl request) (entryValue entry)))
            entries)) \<and>
   (if headersPermitted rt hostname entries (requestHeaders request)
    then replaceSecretPlaceholdersInHeaders rt request hostname entries =
           Inr (substitutedHeaders rt entries (requestHeaders request))
    else \<exists>message. replaceSecretPlaceholdersInHeaders rt request hostname entries =
           Inl (HttpRequestBlockedError message)) \<and>
   replaceSecretPlaceholdersInUrlParameters rt url hostname entries False = Inr url \<and>
   (if queryPermitted rt hostname entries url
    then replaceSecretPlaceholdersInUrlParameters rt url hostname entries True =
           Inr (rewrittenUrl rt entries url)
    else \<exists>message. replaceSecretPlaceholdersInUrlParameters rt url hostname entries True =
           Inl (HttpRequestBlockedError message))"
proof -
  let ?h = "getHostname rt request"
  let ?es = "secretEntries hooks"
  have 1: "replaceSecretsInQuery (createHttpHooks rng opts) =
      (case optReplaceSecretsInQuery opts of Some flag \<Rightarrow> flag | None \<Rightarrow> False)"
    by (simp add: replaceSecretsInQuery_def createHttpHooks_def Let_def case_prod_beta)
  have 2: "\<not> replaceSecretsInQuery hooks \<longrightarrow>
      (if list_ex (\<lambda>entry. \<not> matchesAnyHost ?h (entryHosts entry) \<and>
                     entryValue entry \<noteq> [] \<and>
                     secretOccursInHeaders rt (requestHeaders request) (entryValue entry)) ?es \<or>
          \<not> headersPermitted rt ?h ?es (requestHeaders request)
       then \<exists>message. applySecretsToRequest rt hooks request = Inl (HttpRequestBlockedError message)
       else applySecretsToRequest rt hooks request =
              Inr (request\<lparr>requestHeaders := substitutedHeaders rt ?es (requestHeaders request)\<rparr>))"
  proof
    assume off: "\<not> replaceSecretsInQuery hooks"
    show "if list_ex (\<lambda>entry. \<not> matchesAnyHost ?h (entryHosts entry) \<and>
                     entryValue entry \<noteq> [] \<and>
                     secretOccursInHeaders rt (requestHeaders request) (entryValue entry)) ?es \<or>
          \<not> headersPermitted rt ?h ?es (requestHeaders request)
       then \<exists>message. applySecretsToRequest rt hooks request = Inl (HttpRequestBlockedError message)
       else applySecretsToRequest rt hooks request =
              Inr (request\<lparr>requestHeaders := substitutedHeaders rt ?es (requestHeaders request)\<rparr>)"
      unfolding secretSmuggled_off[symmetric]
      using off applySecretsToRequest_smuggled[of rt request hooks]
        applySecretsToRequest_refused_headers[of rt request hooks]
        applySecretsToRequest_passed[of rt request hooks]
        blocked_error[of "applySecretsToRequest rt hooks request"]
      by (cases "list_ex (secretSmuggled rt request ?h False) ?es";
          cases "headersPermitted rt ?h ?es (requestHeaders request)") simp_all
  qed
  have 3: "replaceSecretsInQuery hooks \<longrightarrow>
      (if list_ex (\<lambda>entry. \<not> matchesAnyHost ?h (entryHosts entry) \<and>
                     entryValue entry \<noteq> [] \<and>
                     (secretOccursInHeaders rt (requestHeaders request) (entryValue entry) \<or>
                      secretOccursInQuery rt (requestUrl request) (entryValue entry))) ?es \<or>
          \<not> headersPermitted rt ?h ?es (requestHeaders request) \<or>
          \<not> queryPermitted rt ?h ?es (requestUrl request)
       then \<exists>message. applySecretsToRequest rt hooks request = Inl (HttpRequestBlockedError message)
       else applySecretsToRequest rt hooks request =
              Inr (request\<lparr>requestUrl := rewrittenUrl rt ?es (requestUrl request),
                           requestHeaders := substitutedHeaders rt ?es (requestHeaders request)\<rparr>))"
  proof
    assume on: "replaceSecretsInQuery hooks"
    show "if list_ex (\<lambda>entry. \<not> matchesAnyHost ?h (entryHosts entry) \<and>
                     entryValue entry \<noteq> [] \<and>
                     (secretOccursInHeaders rt (requestHeaders request) (entryValue entry) \<or>
                      secretOccursInQuery rt (requestUrl request) (entryValue entry))) ?es \<or>
          \<not> headersPermitted rt ?h ?es (requestHeaders request) \<or>
          \<not> queryPermitted rt ?h ?es (requestUrl request)
       then \<exists>message. applySecretsToRequest rt hooks request = Inl (HttpRequestBlockedError message)
       else applySecretsToRequest rt hooks request =
              Inr (request\<lparr>requestUrl := rewrittenUrl rt ?es (requestUrl request),
                           requestHeaders := substitutedHeaders rt ?es (requestHeaders request)\<rparr>)"
      unfolding secretSmuggled_on[symmetric]
      using on applySecretsToRequest_smuggled[of rt request hooks]
        applySecretsToRequest_refused_headers[of rt request hooks]
        applySecretsToRequest_refused_query[of hooks rt request]
        applySecretsToRequest_passed[of rt request hooks]
        blocked_error[of "applySecretsToRequest rt hooks request"]
      by (cases "list_ex (secretSmuggled rt request ?h True) ?es";
          cases "headersPermitted rt ?h ?es (requestHeaders request)";
          cases "queryPermitted rt ?h ?es (requestUrl request)") simp_all
  qed
  have 4: "(assertSecretValuesAllowedForHost rt request hostname entries checkQuery = Inr ()) =
      (\<not> list_ex (\<lambda>entry. \<not> matchesAnyHost hostname (entryHosts entry) \<and> entryValue entry \<noteq> [] \<and>
                    (secretOccursInHeaders rt (requestHeaders request) (entryValue entry) \<or>
                     checkQuery \<and> secretOccursInQuery rt (requestUrl request) (entryValue entry)))
            entries)"
    unfolding secretSmuggled_flag[symmetric] by (rule assertSecretValues_smuggled)
  have 5: "if headersPermitted rt hostname entries (requestHeaders request)
    then replaceSecretPlaceholdersInHeaders rt request hostname entries =
           Inr (substitutedHeaders rt entries (requestHeaders request))
    else \<exists>message. replaceSecretPlaceholdersInHeaders rt request hostname entries =
           Inl (HttpRequestBlockedError message)"
    using replaceSecretPlaceholdersInHeaders_permitted[of rt hostname entries request]
      replaceSecretPlaceholdersInHeaders_refused[of rt hostname entries request]
      blocked_error[of "replaceSecretPlaceholdersInHeaders rt request hostname entries"]
    by (cases "headersPermitted rt hostname entries (requestHeaders request)") simp_all
  have 6: "replaceSecretPlaceholdersInUrlParameters rt url hostname entries False = Inr url"
    by (rule replaceSecretPlaceholdersInUrlParameters_off)
  have 7: "if queryPermitted rt hostname entries url
    then replaceSecretPlaceholdersInUrlParameters rt url hostname entries True =
           Inr (rewrittenUrl rt entries url)
    else \<exists>message. replaceSecretPlaceholdersInUrlParameters rt url hostname entries True =
           Inl (HttpRequestBlockedError message)"
    using replaceSecretPlaceholdersInUrlParameters_permitted[of rt hostname entries url]
      replaceSecretPlaceholdersInUrlParameters_refused[of rt hostname entries url]
      blocked_error[of "replaceSecretPlaceholdersInUrlParameters rt url hostname entries True"]
    by (cases "queryPermitted rt hostname entries url") simp_all
  from 1 2 3 4 5 6 7 show ?thesis by (intro conjI)
qed

theorem query_scan_follows_flag_witness:
  "\<not> replaceSecretsInQuery (createHttpHooks exampleRng exampleOptions) \<and>
   applySecretsToRequest exampleRuntime (createHttpHooks exampleRng exampleOptions)
     exampleQueryLeakRequest = Inr exampleQueryLeakRequest \<and>
   replaceSecretsInQuery (createHttpHooks exampleRng exampleTwoOptions) \<and>
   (\<exists>message. applySecretsToRequest exampleRuntime (createHttpHooks exampleRng exampleTwoOptions)
      exampleQueryLeakRequest = Inl (HttpRequestBlockedError message)) \<and>
   applySecretsToRequest exampleRuntime (createHttpHooks exampleRng exampleTwoOptions)
     exampleQueryRequest =
       Inr \<lparr>requestMethod = ''GET'', requestUrl = ''https://api.example.com/v1?key=s3cr3t'',
            requestHeaders = [(''Authorization'', ''Bearer s3cr3t'')], requestBody = None\<rparr>"
proof -
  let ?one = "createHttpHooks exampleRng exampleOptions"
  let ?two = "createHttpHooks exampleRng exampleTwoOptions"
  note A = query_scan_follows_flag[where rng = exampleRng and opts = exampleOptions
      and hooks = ?one and rt = exampleRuntime and request = exampleQueryLeakRequest]
  note B = query_scan_follows_flag[where rng = exampleRng and opts = exampleTwoOptions
      and hooks = ?two and rt = exampleRuntime and request = exampleQueryLeakRequest]
  note C = query_scan_follows_flag[where hooks = ?two and rt = exampleRuntime
      and request = exampleQueryRequest]
  have o1: "optReplaceSecretsInQuery exampleOptions = None" by (simp add: exampleOptions_def)
  have o2: "optReplaceSecretsInQuery exampleTwoOptions = Some True" by (simp add: exampleTwoOptions_def)
  from A o1 have w1: "\<not> replaceSecretsInQuery ?one" by simp
  from B o2 have w3: "replaceSecretsInQuery ?two" by simp
  have nh: "\<not> list_ex (\<lambda>entry. \<not> matchesAnyHost ''evil.test'' (entryHosts entry) \<and>
       entryValue entry \<noteq> [] \<and>
       secretOccursInHeaders exampleRuntime (requestHeaders exampleQueryLeakRequest) (entryValue entry))
       [exampleEntry]"
    by (simp add: secretOccursInHeaders_def exampleQueryLeakRequest_def exampleEntry_def
          isCredentialHeader_def toLowerCase_def toLowerChar_def upperLetters_def lowerLetters_def
          sublist_code)
  from A w1 have "if list_ex (\<lambda>entry. \<not> matchesAnyHost (getHostname exampleRuntime exampleQueryLeakRequest)
                      (entryHosts entry) \<and> entryValue entry \<noteq> [] \<and>
                     secretOccursInHeaders exampleRuntime (requestHeaders exampleQueryLeakRequest)
                       (entryValue entry)) (secretEntries ?one) \<or>
          \<not> headersPermitted exampleRuntime (getHostname exampleRuntime exampleQueryLeakRequest)
              (secretEntries ?one) (requestHeaders exampleQueryLeakRequest)
       then \<exists>message. applySecretsToRequest exampleRuntime ?one exampleQueryLeakRequest =
              Inl (HttpRequestBlockedError message)
       else applySecretsToRequest exampleRuntime ?one exampleQueryLeakRequest =
              Inr (exampleQueryLeakRequest\<lparr>requestHeaders :=
                     substitutedHeaders exampleRuntime (secretEntries ?one)
                       (requestHeaders exampleQueryLeakRequest)\<rparr>)"
    by blast
  then have w2: "applySecretsToRequest exampleRuntime ?one exampleQueryLeakRequest =
      Inr exampleQueryLeakRequest"
    using nh
    by (simp add: example_hostname_evil example_entries example_accept_permitted
          example_accept_substituted)
  have q: "list_ex (\<lambda>entry. \<not> matchesAnyHost ''evil.test'' (entryHosts entry) \<and>
       entryValue entry \<noteq> [] \<and>
       (secretOccursInHeaders exampleRuntime (requestHeaders exampleQueryLeakRequest) (entryValue entry) \<or>
        secretOccursInQuery exampleRuntime (requestUrl exampleQueryLeakRequest) (entryValue entry)))
       [exampleEntry, exampleOtherEntry]"
    by (simp add: exampleEntry_def example_host_differs exampleQueryLeakRequest_def example_query_occurs)
  from B w3 have "if list_ex (\<lambda>entry. \<not> matchesAnyHost (getHostname exampleRuntime exampleQueryLeakRequest)
                      (entryHosts entry) \<and> entryValue entry \<noteq> [] \<and>
                     (secretOccursInHeaders exampleRuntime (requestHeaders exampleQueryLeakRequest)
                       (entryValue entry) \<or>
                      secretOccursInQuery exampleRuntime (requestUrl exampleQueryLeakRequest)
                       (entryValue entry))) (secretEntries ?two) \<or>
          \<not> headersPermitted exampleRuntime (getHostname exampleRuntime exampleQueryLeakRequest)
              (secretEntries ?two) (requestHeaders exampleQueryLeakRequest) \<or>
          \<not> queryPermitted exampleRuntime (getHostname exampleRuntime exampleQueryLeakRequest)
              (secretEntries ?two) (requestUrl exampleQueryLeakRequest)
       then \<exists>message. applySecretsToRequest exampleRuntime ?two exampleQueryLeakRequest =
              Inl (HttpRequestBlockedError message)
       else applySecretsToRequest exampleRuntime ?two exampleQueryLeakRequest =
              Inr (exampleQueryLeakRequest\<lparr>requestUrl :=
                     rewrittenUrl exampleRuntime (secretEntries ?two) (requestUrl exampleQueryLeakRequest),
                   requestHeaders :=
                     substitutedHeaders exampleRuntime (secretEntries ?two)
                       (requestHeaders exampleQueryLeakRequest)\<rparr>)"
    by blast
  moreover have "list_ex (\<lambda>entry. \<not> matchesAnyHost (getHostname exampleRuntime exampleQueryLeakRequest)
                      (entryHosts entry) \<and> entryValue entry \<noteq> [] \<and>
                     (secretOccursInHeaders exampleRuntime (requestHeaders exampleQueryLeakRequest)
                       (entryValue entry) \<or>
                      secretOccursInQuery exampleRuntime (requestUrl exampleQueryLeakRequest)
                       (entryValue entry))) (secretEntries ?two)"
    unfolding example_hostname_evil example_two_entries by (rule q)
  ultimately have w4: "\<exists>message. applySecretsToRequest exampleRuntime ?two exampleQueryLeakRequest =
      Inl (HttpRequestBlockedError message)"
    by (auto split: if_splits)
  from C w3 have "if list_ex (\<lambda>entry. \<not> matchesAnyHost (getHostname exampleRuntime exampleQueryRequest)
                      (entryHosts entry) \<and> entryValue entry \<noteq> [] \<and>
                     (secretOccursInHeaders exampleRuntime (requestHeaders exampleQueryRequest)
                       (entryValue entry) \<or>
                      secretOccursInQuery exampleRuntime (requestUrl exampleQueryRequest)
                       (entryValue entry))) (secretEntries ?two) \<or>
          \<not> headersPermitted exampleRuntime (getHostname exampleRuntime exampleQueryRequest)
              (secretEntries ?two) (requestHeaders exampleQueryRequest) \<or>
          \<not> queryPermitted exampleRuntime (getHostname exampleRuntime exampleQueryRequest)
              (secretEntries ?two) (requestUrl exampleQueryRequest)
       then \<exists>message. applySecretsToRequest exampleRuntime ?two exampleQueryRequest =
              Inl (HttpRequestBlockedError message)
       else applySecretsToRequest exampleRuntime ?two exampleQueryRequest =
              Inr (exampleQueryRequest\<lparr>requestUrl :=
                     rewrittenUrl exampleRuntime (secretEntries ?two) (requestUrl exampleQueryRequest),
                   requestHeaders :=
                     substitutedHeaders exampleRuntime (secretEntries ?two)
                       (requestHeaders exampleQueryRequest)\<rparr>)"
    by blast
  then have w5: "applySecretsToRequest exampleRuntime ?two exampleQueryRequest =
       Inr \<lparr>requestMethod = ''GET'', requestUrl = ''https://api.example.com/v1?key=s3cr3t'',
            requestHeaders = [(''Authorization'', ''Bearer s3cr3t'')], requestBody = None\<rparr>"
    using example_two_not_smuggled
    by (simp add: example_hostname_api example_two_entries example_two_headers_permitted
          example_two_query_permitted example_two_url example_two_headers)
       (simp add: exampleQueryRequest_def)
  from w1 w2 w3 w4 w5 show ?thesis by (intro conjI)
qed

end
